theory Spec2Isabelle
  imports Complex_Main
begin

section \<open>JavaScript numbers\<close>

text \<open>
  The component computes with JavaScript numbers (IEEE 754 binary64). They are modelled by
  a datatype that keeps what the code can observe: the two infinities, NaN, the negative
  zero, and the finite values, each standing for the real number it denotes (\<open>Fin 0\<close>
  is the positive zero).

  Idealisation: arithmetic on finite values is exact. A result beyond the largest double
  in absolute value overflows to an infinity, as it does in the machine; rounding to 53
  bits and underflow are not modelled. \<open>Math.log10\<close>, \<open>Math.pow\<close>, \<open>Math.cos\<close> and
  \<open>Math.sin\<close> are the mathematical functions, \<open>Math.PI\<close> is \<open>pi\<close>, and a decimal literal
  such as \<open>1e-30\<close> is the number it writes.

  A value of the model therefore stands for the double next to it, and it does so only
  where the machine rounds with a relative error of \<open>2^-53\<close>: for results that are zero
  or at least \<open>2^-1022\<close> in absolute value (below, the machine underflows, down to \<open>0\<close>).
  A comparison of the model has the outcome of the machine's comparison unless the two
  sides are within that rounding error of each other. Where a statement below depends on
  it, these conditions are among its hypotheses (\<open>normal\<close>, \<open>off_thresholds\<close>), and the
  statements about the result at a single input are made at inputs where the comparisons
  of the machine have the outcome of the model's.
\<close>

datatype jsnum = Fin real | NegZero | PInf | NInf | NaN

definition MAX_VALUE :: real where
  "MAX_VALUE = (2 ^ 53 - 1) * 2 ^ 971"

fun isFinite :: "jsnum \<Rightarrow> bool" where
  "isFinite (Fin x) = True"
| "isFinite NegZero = True"
| "isFinite _ = False"

fun is_inf :: "jsnum \<Rightarrow> bool" where
  "is_inf PInf = True"
| "is_inf NInf = True"
| "is_inf _ = False"

fun is_zero :: "jsnum \<Rightarrow> bool" where
  "is_zero (Fin x) = (x = 0)"
| "is_zero NegZero = True"
| "is_zero _ = False"

text \<open>The sign bit, and the real value of a finite number.\<close>

fun sign_neg :: "jsnum \<Rightarrow> bool" where
  "sign_neg (Fin x) = (x < 0)"
| "sign_neg NegZero = True"
| "sign_neg NInf = True"
| "sign_neg _ = False"

fun val :: "jsnum \<Rightarrow> real" where
  "val (Fin x) = x"
| "val _ = 0"

text \<open>The reals within the range of the doubles.\<close>

definition in_range :: "real \<Rightarrow> bool" where
  "in_range x = (\<bar>x\<bar> \<le> MAX_VALUE)"

text \<open>The least positive normal double, \<open>2^-1022\<close>, and the reals within the range of the
  normal doubles: there a double has 53 significant bits, and a result is neither an
  overflow nor an underflow.\<close>

definition MIN_NORMAL :: real where
  "MIN_NORMAL = 1 / 2 ^ 1022"

definition normal :: "real \<Rightarrow> bool" where
  "normal x = (MIN_NORMAL \<le> \<bar>x\<bar> \<and> \<bar>x\<bar> \<le> MAX_VALUE)"

text \<open>The result of an exact computation, as a double: overflow gives an infinity.\<close>

definition rnd :: "real \<Rightarrow> jsnum" where
  "rnd x = (if x > MAX_VALUE then PInf else if x < - MAX_VALUE then NInf else Fin x)"

text \<open>The same, with the sign of a zero result given.\<close>

definition signed :: "bool \<Rightarrow> real \<Rightarrow> jsnum" where
  "signed s x = (if x = 0 then (if s then NegZero else Fin 0) else rnd x)"

text \<open>A value that cannot overflow (an integer rounding of a double), with the sign of a
  zero result given.\<close>

definition with_sign :: "bool \<Rightarrow> real \<Rightarrow> jsnum" where
  "with_sign s x = (if x = 0 then (if s then NegZero else Fin 0) else Fin x)"

definition inf_of :: "bool \<Rightarrow> jsnum" where
  "inf_of s = (if s then NInf else PInf)"

definition js_neg :: "jsnum \<Rightarrow> jsnum" where
  "js_neg a = (case a of
       Fin x \<Rightarrow> (if x = 0 then NegZero else Fin (- x))
     | NegZero \<Rightarrow> Fin 0
     | PInf \<Rightarrow> NInf
     | NInf \<Rightarrow> PInf
     | NaN \<Rightarrow> NaN)"

definition js_mul :: "jsnum \<Rightarrow> jsnum \<Rightarrow> jsnum" where
  "js_mul a b =
     (if a = NaN \<or> b = NaN then NaN
      else if is_inf a \<or> is_inf b then
        (if is_zero a \<or> is_zero b then NaN else inf_of (sign_neg a \<noteq> sign_neg b))
      else signed (sign_neg a \<noteq> sign_neg b) (val a * val b))"

definition js_div :: "jsnum \<Rightarrow> jsnum \<Rightarrow> jsnum" where
  "js_div a b =
     (if a = NaN \<or> b = NaN then NaN
      else if is_inf a then (if is_inf b then NaN else inf_of (sign_neg a \<noteq> sign_neg b))
      else if is_inf b then signed (sign_neg a \<noteq> sign_neg b) 0
      else if is_zero b then (if is_zero a then NaN else inf_of (sign_neg a \<noteq> sign_neg b))
      else signed (sign_neg a \<noteq> sign_neg b) (val a / val b))"

definition js_add :: "jsnum \<Rightarrow> jsnum \<Rightarrow> jsnum" where
  "js_add a b =
     (if a = NaN \<or> b = NaN then NaN
      else if is_inf a then (if is_inf b \<and> a \<noteq> b then NaN else a)
      else if is_inf b then b
      else if val a + val b = 0 then (if a = NegZero \<and> b = NegZero then NegZero else Fin 0)
      else rnd (val a + val b))"

definition js_sub :: "jsnum \<Rightarrow> jsnum \<Rightarrow> jsnum" where
  "js_sub a b = js_add a (js_neg b)"

text \<open>The comparisons \<open><\<close>, \<open><=\<close>, \<open>>\<close>, \<open>>=\<close> and \<open>===\<close>: false on NaN; the two
  zeros are equal.\<close>

definition js_lt :: "jsnum \<Rightarrow> jsnum \<Rightarrow> bool" where
  "js_lt a b =
     (if a = NaN \<or> b = NaN then False
      else if a = PInf \<or> b = NInf then False
      else if a = NInf \<or> b = PInf then True
      else val a < val b)"

definition js_eq :: "jsnum \<Rightarrow> jsnum \<Rightarrow> bool" where
  "js_eq a b =
     (if a = NaN \<or> b = NaN then False
      else if is_inf a \<or> is_inf b then a = b
      else val a = val b)"

definition js_le :: "jsnum \<Rightarrow> jsnum \<Rightarrow> bool" where
  "js_le a b = (js_lt a b \<or> js_eq a b)"

definition js_gt :: "jsnum \<Rightarrow> jsnum \<Rightarrow> bool" where
  "js_gt a b = js_lt b a"

definition js_ge :: "jsnum \<Rightarrow> jsnum \<Rightarrow> bool" where
  "js_ge a b = js_le b a"

subsection \<open>The functions of \<open>Math\<close> that the component calls\<close>

text \<open>\<open>Math.max\<close> and \<open>Math.min\<close> of two arguments: NaN if either is, and \<open>-0 < +0\<close>.\<close>

definition Math_max :: "jsnum \<Rightarrow> jsnum \<Rightarrow> jsnum" where
  "Math_max a b =
     (if a = NaN \<or> b = NaN then NaN
      else if js_lt a b then b
      else if js_lt b a then a
      else if a = NegZero then b else a)"

definition Math_min :: "jsnum \<Rightarrow> jsnum \<Rightarrow> jsnum" where
  "Math_min a b =
     (if a = NaN \<or> b = NaN then NaN
      else if js_lt a b then a
      else if js_lt b a then b
      else if b = NegZero then b else a)"

definition Math_abs :: "jsnum \<Rightarrow> jsnum" where
  "Math_abs a = (case a of
       Fin x \<Rightarrow> Fin \<bar>x\<bar>
     | NegZero \<Rightarrow> Fin 0
     | PInf \<Rightarrow> PInf
     | NInf \<Rightarrow> PInf
     | NaN \<Rightarrow> NaN)"

text \<open>Rounding towards zero on the reals, then \<open>Math.trunc\<close>, which keeps the sign of a
  zero result.\<close>

definition trunc_real :: "real \<Rightarrow> int" where
  "trunc_real x = (if 0 \<le> x then \<lfloor>x\<rfloor> else \<lceil>x\<rceil>)"

definition Math_trunc :: "jsnum \<Rightarrow> jsnum" where
  "Math_trunc a = (case a of
       Fin x \<Rightarrow> with_sign (x < 0) (of_int (trunc_real x))
     | _ \<Rightarrow> a)"

definition Math_floor :: "jsnum \<Rightarrow> jsnum" where
  "Math_floor a = (case a of
       Fin x \<Rightarrow> Fin (of_int \<lfloor>x\<rfloor>)
     | _ \<Rightarrow> a)"

definition Math_ceil :: "jsnum \<Rightarrow> jsnum" where
  "Math_ceil a = (case a of
       Fin x \<Rightarrow> with_sign (x < 0) (of_int \<lceil>x\<rceil>)
     | _ \<Rightarrow> a)"

definition Math_log10 :: "jsnum \<Rightarrow> jsnum" where
  "Math_log10 a = (case a of
       Fin x \<Rightarrow> (if x = 0 then NInf else if x < 0 then NaN else Fin (log 10 x))
     | NegZero \<Rightarrow> NInf
     | PInf \<Rightarrow> PInf
     | NInf \<Rightarrow> NaN
     | NaN \<Rightarrow> NaN)"

text \<open>\<open>Math.pow(10, y)\<close>: the component only raises 10 to a power.\<close>

definition Math_pow10 :: "jsnum \<Rightarrow> jsnum" where
  "Math_pow10 y = (case y of
       Fin e \<Rightarrow> rnd (10 powr e)
     | NegZero \<Rightarrow> Fin 1
     | PInf \<Rightarrow> PInf
     | NInf \<Rightarrow> Fin 0
     | NaN \<Rightarrow> NaN)"

definition Math_cos :: "jsnum \<Rightarrow> jsnum" where
  "Math_cos a = (case a of
       Fin x \<Rightarrow> Fin (cos x)
     | NegZero \<Rightarrow> Fin 1
     | _ \<Rightarrow> NaN)"

definition Math_sin :: "jsnum \<Rightarrow> jsnum" where
  "Math_sin a = (case a of
       Fin x \<Rightarrow> Fin (sin x)
     | NegZero \<Rightarrow> NegZero
     | _ \<Rightarrow> NaN)"

section \<open>The magnitude \<open>r\<close>\<close>

text \<open>
  \<^verbatim>\<open>
  const r = useMemo(() => {
    const clampedMantissa = Number.isFinite(mantissa) ? mantissa : 0;
    const clampedExp = Number.isFinite(exp)
      ? Math.max(-300, Math.min(300, Math.trunc(exp))) : 0;
    return clampedMantissa * Math.pow(10, clampedExp);
  }, [mantissa, exp]);
  \<close>
  The memo \<open>r\<close> as a function of the two state variables it depends on (the specification
  calls it \<open>resolveMagnitude\<close>). The product is \<open>js_mul\<close>: it overflows to an infinity
  and does not underflow, so it stands for the machine's product where that product is
  zero or \<open>normal\<close>.
\<close>

definition clampedMantissa :: "jsnum \<Rightarrow> jsnum" where
  "clampedMantissa mantissa = (if isFinite mantissa then mantissa else Fin 0)"

definition clampedExp :: "jsnum \<Rightarrow> jsnum" where
  "clampedExp ex =
     (if isFinite ex then Math_max (Fin (- 300)) (Math_min (Fin 300) (Math_trunc ex))
      else Fin 0)"

definition resolveMagnitude :: "jsnum \<Rightarrow> jsnum \<Rightarrow> jsnum" where
  "resolveMagnitude mantissa ex = js_mul (clampedMantissa mantissa) (Math_pow10 (clampedExp ex))"

text \<open>The exponent of the specification: truncated, then clamped to \<open>[-300, 300]\<close>; \<open>0\<close>
  for an exponent that is not finite.\<close>

definition spec_exponent :: "jsnum \<Rightarrow> int" where
  "spec_exponent ex =
     (if isFinite ex then max (- 300) (min 300 (trunc_real (val ex))) else 0)"

section \<open>The view and the world-to-screen mapping\<close>

text \<open>
  \<^verbatim>\<open>
  const width = 760;
  const height = 560;
  const center = { x: width / 2, y: height / 2 };
  const unit = zoom; // px per world unit
  const toPx = (x, y) => ({ x: center.x + x * unit, y: center.y - y * unit });
  \<close>
  The canvas size is a pair of constants in the source; the functions below take it with
  the zoom in a record, and \<open>canvas\<close> is the view of the source.
\<close>

record view =
  width :: jsnum
  height :: jsnum
  zoom :: jsnum

definition canvas :: "jsnum \<Rightarrow> view" where
  "canvas z = \<lparr>width = Fin 760, height = Fin 560, zoom = z\<rparr>"

definition center :: "view \<Rightarrow> jsnum \<times> jsnum" where
  "center v = (js_div (width v) (Fin 2), js_div (height v) (Fin 2))"

definition unit :: "view \<Rightarrow> jsnum" where
  "unit v = zoom v"

definition toPx :: "view \<Rightarrow> jsnum \<Rightarrow> jsnum \<Rightarrow> jsnum \<times> jsnum" where
  "toPx v x y =
     (js_add (fst (center v)) (js_mul x (unit v)),
      js_sub (snd (center v)) (js_mul y (unit v)))"

section \<open>The angle arc\<close>

text \<open>
  \<^verbatim>\<open>
  // Angle arc (trim to unit circle radius for clarity)
  const arcRadius = unit * Math.min(1, r);
  const arcEnd = toPx(Math.cos(theta) * Math.min(1, r), Math.sin(theta) * Math.min(1, r));
  const largeArc = Math.abs(theta) > Math.PI ? 1 : 0;
  const sweep = theta >= 0 ? 0 : 1; // SVG y-down
  \<close>
\<close>

definition arcRadius :: "view \<Rightarrow> jsnum \<Rightarrow> jsnum" where
  "arcRadius v r = js_mul (unit v) (Math_min (Fin 1) r)"

definition arcEnd :: "view \<Rightarrow> jsnum \<Rightarrow> jsnum \<Rightarrow> jsnum \<times> jsnum" where
  "arcEnd v theta r =
     toPx v (js_mul (Math_cos theta) (Math_min (Fin 1) r))
            (js_mul (Math_sin theta) (Math_min (Fin 1) r))"

definition largeArc :: "jsnum \<Rightarrow> nat" where
  "largeArc theta = (if js_gt (Math_abs theta) (Fin pi) then 1 else 0)"

definition sweep :: "jsnum \<Rightarrow> nat" where
  "sweep theta = (if js_ge theta (Fin 0) then 0 else 1)"

section \<open>The dashed circle of radius \<open>|r|\<close>\<close>

text \<open>
  \<^verbatim>\<open>
  // Avoid rendering a massive dashed circle that would choke the SVG
  const radiusPx = unit * Math.abs(r);
  const showRCircle = Number.isFinite(radiusPx) && radiusPx < Math.max(width, height) * 3;
  ...
  {showRCircle && Math.abs(r - 1) > 1e-12 && (
     <circle cx={center.x} cy={center.y} r={radiusPx} ... />
     ...)}
  \<close>
  \<open>rCircle\<close> is the circle element that the component renders (its \<open>cx\<close>, \<open>cy\<close> and
  \<open>r\<close> attributes), or \<open>None\<close> when it renders none.
\<close>

definition radiusPx :: "view \<Rightarrow> jsnum \<Rightarrow> jsnum" where
  "radiusPx v r = js_mul (unit v) (Math_abs r)"

definition showRCircle :: "view \<Rightarrow> jsnum \<Rightarrow> bool" where
  "showRCircle v r =
     (isFinite (radiusPx v r) \<and>
      js_lt (radiusPx v r) (js_mul (Math_max (width v) (height v)) (Fin 3)))"

definition rCircle :: "view \<Rightarrow> jsnum \<Rightarrow> (jsnum \<times> jsnum \<times> jsnum) option" where
  "rCircle v r =
     (if showRCircle v r \<and> js_gt (Math_abs (js_sub r (Fin 1))) (Fin (1 / 10 ^ 12))
      then Some (fst (center v), snd (center v), radiusPx v r)
      else None)"

section \<open>The grid: step and ticks\<close>

text \<open>
  \<^verbatim>\<open>
  function niceStep(spanUnits: number, targetLines = 10) {
    const raw = spanUnits / targetLines;
    const pow10 = Math.pow(10, Math.floor(Math.log10(Math.max(1e-30, raw))));
    const norm = raw / pow10;
    let nice;
    if (norm < 1.5) nice = 1;
    else if (norm < 3.5) nice = 2;
    else if (norm < 7.5) nice = 5;
    else nice = 10;
    return nice * pow10;
  }
  \<close>
  \<open>niceStep_logarg\<close> is the argument that the function passes to \<open>Math.log10\<close>.
\<close>

definition niceStep_logarg :: "jsnum \<Rightarrow> jsnum \<Rightarrow> jsnum" where
  "niceStep_logarg spanUnits targetLines =
     Math_max (Fin (1 / 10 ^ 30)) (js_div spanUnits targetLines)"

definition niceStep :: "jsnum \<Rightarrow> jsnum \<Rightarrow> jsnum" where
  "niceStep spanUnits targetLines =
     (let raw = js_div spanUnits targetLines;
          pow10 = Math_pow10 (Math_floor (Math_log10 (Math_max (Fin (1 / 10 ^ 30)) raw)));
          norm = js_div raw pow10;
          nice = (if js_lt norm (Fin (3 / 2)) then Fin 1
                  else if js_lt norm (Fin (7 / 2)) then Fin 2
                  else if js_lt norm (Fin (15 / 2)) then Fin 5
                  else Fin 10)
      in js_mul nice pow10)"

text \<open>
  The step as the specification gives it, on the reals: \<open>raw = spanUnits / targetLines\<close>,
  \<open>pow10 = 10^floor(log10(max(raw, 1e-30)))\<close>, \<open>norm = raw / pow10\<close>, the multiplier
  \<open>1\<close> if \<open>norm < 1.5\<close>, \<open>2\<close> if \<open>norm < 3.5\<close>, \<open>5\<close> if \<open>norm < 7.5\<close>, else
  \<open>10\<close>, and \<open>step = multiplier * pow10\<close>.
\<close>

definition niceStep_spec :: "real \<Rightarrow> real \<Rightarrow> real" where
  "niceStep_spec spanUnits targetLines =
     (let raw = spanUnits / targetLines;
          pow10 = 10 powi \<lfloor>log 10 (max raw (1 / 10 ^ 30))\<rfloor>;
          norm = raw / pow10;
          multiplier = (if norm < 3 / 2 then 1 else if norm < 7 / 2 then 2
                        else if norm < 15 / 2 then 5 else 10)
      in multiplier * pow10)"

text \<open>
  The normalised value \<open>norm\<close> and the multiplier of the specification on their own.
  The code compares the double \<open>raw / pow10\<close> with the thresholds; it carries the
  rounding errors of the two divisions and of \<open>Math.pow\<close>, a few units of \<open>2^-53\<close>
  relative. \<open>off_thresholds\<close> holds of a normalised value that is at least \<open>10^-9\<close>
  away from each threshold, that is, far enough for the double and the real number to
  fall on the same side of all three.
\<close>

definition spec_norm :: "real \<Rightarrow> real \<Rightarrow> real" where
  "spec_norm spanUnits targetLines =
     (let raw = spanUnits / targetLines;
          pow10 = 10 powi \<lfloor>log 10 (max raw (1 / 10 ^ 30))\<rfloor>
      in raw / pow10)"

definition spec_multiplier :: "real \<Rightarrow> real" where
  "spec_multiplier x =
     (if x < 3 / 2 then 1 else if x < 7 / 2 then 2 else if x < 15 / 2 then 5 else 10)"

definition off_thresholds :: "real \<Rightarrow> bool" where
  "off_thresholds x =
     (1 / 10 ^ 9 \<le> \<bar>x - 3 / 2\<bar> \<and> 1 / 10 ^ 9 \<le> \<bar>x - 7 / 2\<bar> \<and>
      1 / 10 ^ 9 \<le> \<bar>x - 15 / 2\<bar>)"

text \<open>
  \<^verbatim>\<open>
  function ticks(step: number, half: number) {
    const out: number[] = [];
    const start = -Math.ceil(half / step) * step;
    const end = Math.ceil(half / step) * step;
    for (let v = start; v <= end + 1e-12; v += step) out.push(+(v.toFixed(12)));
    return out;
  }
  \<close>
  \<open>toFixed_n f x\<close> is the integer \<open>n\<close> of \<open>Number.prototype.toFixed\<close> for a magnitude
  \<open>x\<close>: the one for which \<open>n / 10^f\<close> is closest to \<open>x\<close>, the larger one of two.
  \<open>toFixed_num f v\<close> is the number \<open>+(v.toFixed(f))\<close>: from \<open>10^21\<close> on, and for a value
  that is not finite, \<open>toFixed\<close> prints the number itself, and the string of a negative
  number that rounds to zero reads back as \<open>-0\<close>.

  The sums \<open>v += step\<close> of the loop are exact in the model. In the machine each of them
  is rounded, and the error adds up over the rounds; the tolerance \<open>1e-12\<close> of the test
  and the rounding of each tick to 12 decimals are the code's allowance for it. The
  model's list of ticks is therefore the machine's where the sums are exact in doubles
  (as for a step and a start that are integers, or multiples of one power of two, below
  \<open>2^53\<close>); elsewhere it gives the ticks up to that drift.
\<close>

definition toFixed_n :: "nat \<Rightarrow> real \<Rightarrow> int" where
  "toFixed_n f x = \<lfloor>x * 10 ^ f + 1 / 2\<rfloor>"

definition toFixed_num :: "nat \<Rightarrow> jsnum \<Rightarrow> jsnum" where
  "toFixed_num f v = (case v of
       Fin x \<Rightarrow>
         (if 10 ^ 21 \<le> \<bar>x\<bar> then Fin x
          else if x < 0 then with_sign True (- (of_int (toFixed_n f (- x)) / 10 ^ f))
          else Fin (of_int (toFixed_n f x) / 10 ^ f))
     | NegZero \<Rightarrow> Fin 0
     | _ \<Rightarrow> v)"

text \<open>
  An array holds at most \<open>2^32 - 1\<close> elements: \<open>push\<close> on an array of that length sets
  the length to \<open>2^32\<close>, which raises a RangeError (ECMAScript, ArraySetLength). The loop
  pushes one element in every round, so it ends in any case: with the array, or with the
  error.
\<close>

datatype error = RangeError

definition MAX_ARRAY_LENGTH :: nat where
  "MAX_ARRAY_LENGTH = 4294967295"

function ticks_loop :: "jsnum \<Rightarrow> jsnum \<Rightarrow> jsnum \<Rightarrow> jsnum list \<Rightarrow> error + jsnum list" where
  "ticks_loop step end_v v out =
     (if js_le v (js_add end_v (Fin (1 / 10 ^ 12))) then
        (if MAX_ARRAY_LENGTH \<le> length out then Inl RangeError
         else ticks_loop step end_v (js_add v step) (out @ [toFixed_num 12 v]))
      else Inr out)"
  by pat_completeness auto
termination
  by (relation "measure (\<lambda>(step, end_v, v, out). MAX_ARRAY_LENGTH - length out)") auto

declare ticks_loop.simps [simp del]

definition ticks :: "jsnum \<Rightarrow> jsnum \<Rightarrow> error + jsnum list" where
  "ticks step half =
     (let start = js_mul (js_neg (Math_ceil (js_div half step))) step;
          end_v = js_mul (Math_ceil (js_div half step)) step
      in ticks_loop step end_v start [])"

text \<open>
  The loop in closed form, for the proofs: \<open>loop_rounds s e v\<close> is the number of rounds from
  the value \<open>v\<close> up to the end \<open>e\<close> with the step \<open>s\<close> (the greatest \<open>k\<close> with
  \<open>v + (k - 1) * s \<le> e + 10^-12\<close>), and \<open>tick_list s n m\<close> is the list of the first
  \<open>m\<close> values \<open>-n * s, (1 - n) * s, ...\<close>, each rounded to 12 decimals.
\<close>

definition loop_rounds :: "real \<Rightarrow> real \<Rightarrow> real \<Rightarrow> nat" where
  "loop_rounds s e v =
     (if v \<le> e + 1 / 10 ^ 12 then nat \<lfloor>(e + 1 / 10 ^ 12 - v) / s\<rfloor> + 1 else 0)"

definition tick_list :: "real \<Rightarrow> nat \<Rightarrow> nat \<Rightarrow> jsnum list" where
  "tick_list s n m = map (\<lambda>i. toFixed_num 12 (Fin ((real i - real n) * s))) [0..<m]"

text \<open>
  \<^verbatim>\<open>
  const xHalfSpan = center.x / unit; // units from 0 to edge
  const yHalfSpan = center.y / unit;
  const xStep = niceStep(xHalfSpan);
  const yStep = niceStep(yHalfSpan);
  const xTicks = ticks(xStep, xHalfSpan);
  const yTicks = ticks(yStep, yHalfSpan);
  \<close>
\<close>

definition xHalfSpan :: "view \<Rightarrow> jsnum" where
  "xHalfSpan v = js_div (fst (center v)) (unit v)"

definition yHalfSpan :: "view \<Rightarrow> jsnum" where
  "yHalfSpan v = js_div (snd (center v)) (unit v)"

definition xStep :: "view \<Rightarrow> jsnum" where
  "xStep v = niceStep (xHalfSpan v) (Fin 10)"

definition yStep :: "view \<Rightarrow> jsnum" where
  "yStep v = niceStep (yHalfSpan v) (Fin 10)"

definition xTicks :: "view \<Rightarrow> error + jsnum list" where
  "xTicks v = ticks (xStep v) (xHalfSpan v)"

definition yTicks :: "view \<Rightarrow> error + jsnum list" where
  "yTicks v = ticks (yStep v) (yHalfSpan v)"

text \<open>A sequence is symmetric about zero when it is its own mirror image: read from the
  end, it is the sequence of the opposite numbers (compared with \<open>===\<close>).\<close>

definition symmetric_about_zero :: "jsnum list \<Rightarrow> bool" where
  "symmetric_about_zero ys = list_all2 (\<lambda>a b. js_eq a (js_neg b)) ys (rev ys)"

section \<open>Formatting\<close>

text \<open>
  \<^verbatim>\<open>
  const fmt = (v: number) => {
    if (!Number.isFinite(v)) return "\<infinity>";
    const a = Math.abs(v);
    if (a === 0) return "0";
    if (a >= 1e6 || a < 1e-3) return v.toExponential(2);
    return v.toFixed(3).replace(/\.0+$/, "").replace(/(\.\d*?)0+$/, "$1");
  };
  \<close>
  Strings are lists of bytes; the infinity symbol U+221E is the three bytes of its UTF-8
  encoding.
\<close>

definition infinity_symbol :: string where
  "infinity_symbol = [CHR 0xE2, CHR 0x88, CHR 0x9E]"

definition digit_char :: "nat \<Rightarrow> char" where
  "digit_char d = ''0123456789'' ! d"

fun decimal :: "nat \<Rightarrow> string" where
  "decimal n = (if n < 10 then [digit_char n] else decimal (n div 10) @ [digit_char (n mod 10)])"

declare decimal.simps [simp del]

definition is_digit :: "char \<Rightarrow> bool" where
  "is_digit c = (c \<in> set ''0123456789'')"

text \<open>
  \<open>Number.prototype.toFixed(f)\<close> on a finite number below \<open>10^21\<close> in absolute value
  (\<open>fmt\<close> calls it below \<open>10^6\<close> only): the sign, then the digits of \<open>n\<close>, padded with
  zeros on the left to \<open>f + 1\<close> digits, with the point before the last \<open>f\<close>.
\<close>

definition toFixed :: "nat \<Rightarrow> real \<Rightarrow> string" where
  "toFixed f x =
     (let s = (if x < 0 then ''-'' else []);
          m = decimal (nat (toFixed_n f \<bar>x\<bar>));
          m = (if f \<noteq> 0 then
                 (let m = (if length m \<le> f then replicate (f + 1 - length m) CHR ''0'' @ m else m);
                      k = length m
                  in take (k - f) m @ ''.'' @ drop (k - f) m)
               else m)
      in s @ m)"

text \<open>
  \<open>Number.prototype.toExponential(f)\<close> on a finite number: \<open>e\<close> and \<open>n\<close> with
  \<open>10^f \<le> n < 10^(f+1)\<close> and \<open>n * 10^(e-f)\<close> closest to the magnitude (the larger one of
  two); the digits of \<open>n\<close> with the point after the first, then \<open>e\<close>, its sign and its
  digits.
\<close>

definition toExponential :: "nat \<Rightarrow> real \<Rightarrow> string" where
  "toExponential f x =
     (let s = (if x < 0 then ''-'' else []);
          e0 = (if x = 0 then 0 else \<lfloor>log 10 \<bar>x\<bar>\<rfloor>);
          n0 = (if x = 0 then 0 else \<lfloor>\<bar>x\<bar> / 10 powi (e0 - int f) + 1 / 2\<rfloor>);
          e = (if 10 ^ (f + 1) \<le> n0 then e0 + 1 else e0);
          n = (if 10 ^ (f + 1) \<le> n0 then n0 div 10 else n0);
          m = (if x = 0 then replicate (f + 1) CHR ''0'' else decimal (nat n));
          m = (if f \<noteq> 0 then take 1 m @ ''.'' @ drop 1 m else m);
          c = (if 0 \<le> e then ''+'' else ''-'');
          d = decimal (nat \<bar>e\<bar>)
      in s @ m @ ''e'' @ c @ d)"

text \<open>
  The two replacements. \<open>/\.0+$/\<close> matches at the first point that is followed by
  zeros only (one at least) up to the end, and the match is removed.
  \<open>/(\.\d*?)0+$/\<close> matches at the first point that is followed by digits only up to
  the end, the last of them a zero; the lazy group takes as few digits as it can, so the
  zeros that go are all the zeros at the end.
\<close>

fun replace_dot_zeros :: "string \<Rightarrow> string" where
  "replace_dot_zeros [] = []"
| "replace_dot_zeros (c # cs) =
     (if c = CHR ''.'' \<and> cs \<noteq> [] \<and> list_all (\<lambda>d. d = CHR ''0'') cs then []
      else c # replace_dot_zeros cs)"

definition drop_zeros_end :: "string \<Rightarrow> string" where
  "drop_zeros_end cs = rev (dropWhile (\<lambda>d. d = CHR ''0'') (rev cs))"

fun replace_trailing_zeros :: "string \<Rightarrow> string" where
  "replace_trailing_zeros [] = []"
| "replace_trailing_zeros (c # cs) =
     (if c = CHR ''.'' \<and> cs \<noteq> [] \<and> list_all is_digit cs \<and> last cs = CHR ''0''
      then c # drop_zeros_end cs
      else c # replace_trailing_zeros cs)"

definition fmt :: "jsnum \<Rightarrow> string" where
  "fmt v =
     (if \<not> isFinite v then infinity_symbol
      else let a = Math_abs v in
        if js_eq a (Fin 0) then ''0''
        else if js_ge a (Fin (10 ^ 6)) \<or> js_lt a (Fin (1 / 10 ^ 3)) then toExponential 2 (val v)
        else replace_trailing_zeros (replace_dot_zeros (toFixed 3 (val v))))"

text \<open>The rendering of the specification: the fixed-point string without the zeros at its
  end, and without the point if it comes last then.\<close>

definition strip_fraction :: "string \<Rightarrow> string" where
  "strip_fraction s =
     (let t = drop_zeros_end s in if t \<noteq> [] \<and> last t = CHR ''.'' then butlast t else t)"

section \<open>Properties\<close>

subsection \<open>Arithmetic of the number model\<close>

lemma MAX_VALUE_pos: "0 < MAX_VALUE"
  by (simp add: MAX_VALUE_def)

lemma ten_pow_300_le_MAX: "(10::real) ^ 300 \<le> MAX_VALUE"
  by (simp add: MAX_VALUE_def)

lemma rnd_in_range: "\<bar>x\<bar> \<le> MAX_VALUE \<Longrightarrow> rnd x = Fin x"
  by (auto simp: rnd_def)

lemma with_sign_simps [simp]:
  "val (with_sign s x) = x" "isFinite (with_sign s x)" "\<not> is_inf (with_sign s x)"
  "with_sign s x \<noteq> NaN" "with_sign s x \<noteq> PInf" "with_sign s x \<noteq> NInf"
  "is_zero (with_sign s x) = (x = 0)"
  by (simp_all add: with_sign_def)

lemma js_mul_Fin:
  "in_range (x * y) \<Longrightarrow> js_mul (Fin x) (Fin y) = with_sign ((x < 0) \<noteq> (y < 0)) (x * y)"
  by (simp add: js_mul_def signed_def with_sign_def rnd_in_range in_range_def)

lemma js_div_Fin:
  "y \<noteq> 0 \<Longrightarrow> in_range (x / y) \<Longrightarrow>
   js_div (Fin x) (Fin y) = with_sign ((x < 0) \<noteq> (y < 0)) (x / y)"
  by (simp add: js_div_def signed_def with_sign_def rnd_in_range in_range_def)

lemma js_neg_with_sign: "js_neg (with_sign s x) = with_sign (\<not> s) (- x)"
  by (simp add: js_neg_def with_sign_def)

lemma js_add_Fin_with_sign:
  "in_range (a + x) \<Longrightarrow> js_add (Fin a) (with_sign s x) = Fin (a + x)"
  by (auto simp: js_add_def with_sign_def rnd_in_range in_range_def)

lemma js_mul_Fin_signed: "js_mul (Fin a) (Fin b) = signed ((a < 0) \<noteq> (b < 0)) (a * b)"
  by (simp add: js_mul_def)

lemma isFinite_signed: "isFinite (signed s y) = in_range y"
  using MAX_VALUE_pos by (auto simp: signed_def rnd_def in_range_def)

lemma val_signed: "in_range y \<Longrightarrow> val (signed s y) = y"
  by (auto simp: signed_def rnd_in_range in_range_def)

lemma Math_max_Fin: "Math_max (Fin a) (Fin b) = Fin (max a b)"
  by (auto simp: Math_max_def js_lt_def)

lemma js_lt_finite: "isFinite a \<Longrightarrow> isFinite b \<Longrightarrow> js_lt a b = (val a < val b)"
  by (cases a; cases b) (simp_all add: js_lt_def)

lemma powi_ten_bounds:
  assumes "k \<le> 300"
  shows "0 < (10::real) powi k" and "(10::real) powi k \<le> MAX_VALUE"
proof -
  show "0 < (10::real) powi k" by simp
  have "(10::real) powi k \<le> 10 powi 300"
    using assms by (intro power_int_increasing) simp_all
  also have "\<dots> = 10 ^ 300" by (simp add: power_int_def)
  finally show "(10::real) powi k \<le> MAX_VALUE"
    using ten_pow_300_le_MAX by linarith
qed

lemma Math_pow10_int:
  assumes "k \<le> 300"
  shows "Math_pow10 (Fin (of_int k)) = Fin (10 powi k)"
proof -
  have "(10::real) powr of_int k = 10 powi k"
    by (rule powr_real_of_int') simp_all
  moreover have "\<bar>(10::real) powi k\<bar> \<le> MAX_VALUE"
    using powi_ten_bounds [OF assms] by simp
  ultimately show ?thesis
    by (simp add: Math_pow10_def rnd_in_range)
qed

lemma clampedExp_value:
  "clampedExp ex = Fin (of_int (spec_exponent ex)) \<or>
   (clampedExp ex = NegZero \<and> spec_exponent ex = 0)"
proof (cases ex)
  case (Fin y)
  let ?t = "trunc_real y"
  have tr: "Math_trunc (Fin y) = (if ?t = 0 \<and> y < 0 then NegZero else Fin (of_int ?t))"
    by (auto simp: Math_trunc_def with_sign_def trunc_real_def)
  show ?thesis
  proof (cases "?t = 0 \<and> y < 0")
    case True
    then show ?thesis
      using Fin tr by (simp add: clampedExp_def spec_exponent_def Math_max_def Math_min_def js_lt_def)
  next
    case False
    then have "Math_trunc (Fin y) = Fin (of_int ?t)" using tr by simp
    then show ?thesis
      using Fin by (auto simp: clampedExp_def spec_exponent_def Math_max_def Math_min_def js_lt_def)
  qed
qed (simp_all add: clampedExp_def spec_exponent_def Math_max_def Math_min_def js_lt_def
    Math_trunc_def trunc_real_def)

lemma spec_exponent_range: "- 300 \<le> spec_exponent ex \<and> spec_exponent ex \<le> 300"
  by (simp add: spec_exponent_def)

lemma pow10_clampedExp: "Math_pow10 (clampedExp ex) = Fin (10 powi spec_exponent ex)"
proof -
  from clampedExp_value [of ex] show ?thesis
  proof
    assume "clampedExp ex = Fin (of_int (spec_exponent ex))"
    then show ?thesis
      using Math_pow10_int [of "spec_exponent ex"] spec_exponent_range [of ex] by simp
  next
    assume "clampedExp ex = NegZero \<and> spec_exponent ex = 0"
    then show ?thesis by (simp add: Math_pow10_def)
  qed
qed

subsection \<open>The magnitude\<close>

text \<open>
  Claim C1. For every pair of numbers, the magnitude is \<open>m' * 10^e'\<close>, where \<open>m'\<close> is
  the mantissa if it is finite and \<open>0\<close> otherwise, and \<open>e'\<close> is the exponent truncated
  and clamped to \<open>[-300, 300]\<close> if it is finite and \<open>0\<close> otherwise. The power of ten is
  always a finite double, so a mantissa that is not finite gives \<open>0\<close> for every exponent
  (in particular NaN does), and an exponent that is NaN leaves a finite mantissa as it is.
  The function has no error branch.

  The value of the product is given where the machine's product is the real one up to
  rounding: for a mantissa \<open>0\<close>, for \<open>e' = 0\<close> (the factor is \<open>1\<close>), and for a product
  within the normal doubles. A smaller product underflows in the machine (the mantissa
  \<open>1e-30\<close> with the exponent \<open>-300\<close> gives \<open>0\<close>); a larger one is an infinity, by the
  first equation.
\<close>

theorem resolveMagnitude_contract:
  "resolveMagnitude m e =
     js_mul (if isFinite m then m else Fin 0) (Fin (10 powi spec_exponent e))
   \<and> ((x = 0 \<or> spec_exponent e = 0 \<or> MIN_NORMAL \<le> \<bar>x * 10 powi spec_exponent e\<bar>) \<and>
        \<bar>x * 10 powi spec_exponent e\<bar> \<le> MAX_VALUE \<longrightarrow>
        resolveMagnitude (Fin x) e = Fin (x * 10 powi spec_exponent e))
   \<and> (\<not> isFinite m \<longrightarrow> resolveMagnitude m e = Fin 0)
   \<and> resolveMagnitude NaN e = Fin 0
   \<and> (\<bar>x\<bar> \<le> MAX_VALUE \<longrightarrow> resolveMagnitude (Fin x) NaN = Fin x)
   \<and> resolveMagnitude NegZero NaN = NegZero"
proof -
  have gen: "resolveMagnitude m e = js_mul (clampedMantissa m) (Fin (10 powi spec_exponent e))"
    for m e
    by (simp add: resolveMagnitude_def pow10_clampedExp)
  have mul: "js_mul (Fin x) (Fin (10 powi spec_exponent e)) =
      signed (x < 0) (x * 10 powi spec_exponent e)" for x e
  proof -
    have "\<not> (10::real) powi spec_exponent e < 0"
      by (simp add: not_less)
    then show ?thesis by (simp add: js_mul_def)
  qed
  have zero: "js_mul (Fin 0) (Fin (10 powi spec_exponent e)) = Fin 0" for e
    by (simp add: mul signed_def)
  have nan_exp: "spec_exponent NaN = 0" by (simp add: spec_exponent_def)
  show ?thesis
  proof (intro conjI impI)
    show "resolveMagnitude m e =
        js_mul (if isFinite m then m else Fin 0) (Fin (10 powi spec_exponent e))"
      by (simp add: gen clampedMantissa_def)
    show "resolveMagnitude (Fin x) e = Fin (x * 10 powi spec_exponent e)"
      if "(x = 0 \<or> spec_exponent e = 0 \<or> MIN_NORMAL \<le> \<bar>x * 10 powi spec_exponent e\<bar>) \<and>
        \<bar>x * 10 powi spec_exponent e\<bar> \<le> MAX_VALUE"
    proof -
      from that have "\<bar>x * 10 powi spec_exponent e\<bar> \<le> MAX_VALUE" ..
      then show ?thesis
        by (simp add: gen clampedMantissa_def mul signed_def rnd_in_range)
    qed
    show "resolveMagnitude m e = Fin 0" if "\<not> isFinite m"
      using that zero by (simp add: gen clampedMantissa_def)
    show "resolveMagnitude NaN e = Fin 0"
      using zero by (simp add: gen clampedMantissa_def)
    show "resolveMagnitude (Fin x) NaN = Fin x" if "\<bar>x\<bar> \<le> MAX_VALUE"
      using that by (simp add: gen clampedMantissa_def nan_exp js_mul_def signed_def rnd_in_range)
    show "resolveMagnitude NegZero NaN = NegZero"
      by (simp add: gen clampedMantissa_def nan_exp js_mul_def signed_def)
  qed
qed

lemma spec_exponent_400: "spec_exponent (Fin 400) = 300"
  by (simp add: spec_exponent_def trunc_real_def)

theorem resolveMagnitude_contract_witness:
  "resolveMagnitude (Fin 5) (Fin 400) = Fin (5 * 10 ^ 300)
   \<and> resolveMagnitude PInf (Fin 400) = Fin 0
   \<and> resolveMagnitude NaN (Fin 400) = Fin 0
   \<and> resolveMagnitude (Fin 5) NaN = Fin 5"
proof -
  have small: "MIN_NORMAL \<le> \<bar>5 * (10::real) powi 300\<bar>"
    "\<bar>5 * (10::real) powi 300\<bar> \<le> MAX_VALUE" "\<bar>5::real\<bar> \<le> MAX_VALUE"
    by (simp_all add: MAX_VALUE_def MIN_NORMAL_def power_int_def)
  show ?thesis
    using resolveMagnitude_contract [of PInf "Fin 400" 5] small
    by (simp add: spec_exponent_400 power_int_def js_mul_def signed_def)
qed

subsection \<open>The world-to-screen mapping\<close>

text \<open>
  Claim C6. For all world coordinates and every view, \<open>toPx\<close> returns
  \<open>px = centerX + worldX * zoom\<close> and \<open>py = centerY - worldY * zoom\<close>, with the centre at
  half the canvas size: the screen Y axis is inverted. On finite numbers whose products
  and sums stay in the range of the doubles these are the real numbers
  \<open>w / 2 + x * z\<close> and \<open>h / 2 - y * z\<close>. The function has no error branch; the result
  is not finite for an infinite coordinate, and when the product overflows.
\<close>

theorem toPx_formula:
  "toPx v x y =
     (js_add (js_div (width v) (Fin 2)) (js_mul x (zoom v)),
      js_sub (js_div (height v) (Fin 2)) (js_mul y (zoom v)))
   \<and> (in_range w \<and> in_range h \<and> in_range (a * z) \<and> in_range (b * z) \<and>
      in_range (w / 2 + a * z) \<and> in_range (h / 2 - b * z) \<longrightarrow>
      toPx \<lparr>width = Fin w, height = Fin h, zoom = Fin z\<rparr> (Fin a) (Fin b) =
        (Fin (w / 2 + a * z), Fin (h / 2 - b * z)))
   \<and> toPx (canvas (Fin 100)) PInf (Fin 0) = (PInf, Fin 280)
   \<and> toPx (canvas (Fin 100)) (Fin (10 ^ 307)) (Fin 0) = (PInf, Fin 280)"
proof (intro conjI impI)
  show "toPx v x y =
     (js_add (js_div (width v) (Fin 2)) (js_mul x (zoom v)),
      js_sub (js_div (height v) (Fin 2)) (js_mul y (zoom v)))"
    by (simp add: toPx_def center_def unit_def)
next
  assume r: "in_range w \<and> in_range h \<and> in_range (a * z) \<and> in_range (b * z) \<and>
      in_range (w / 2 + a * z) \<and> in_range (h / 2 - b * z)"
  have half: "js_div (Fin w) (Fin 2) = Fin (w / 2)" "js_div (Fin h) (Fin 2) = Fin (h / 2)"
    using r by (auto simp: js_div_def signed_def rnd_in_range in_range_def)
  show "toPx \<lparr>width = Fin w, height = Fin h, zoom = Fin z\<rparr> (Fin a) (Fin b) =
        (Fin (w / 2 + a * z), Fin (h / 2 - b * z))"
    using r
    by (simp add: toPx_def center_def unit_def half js_mul_Fin js_sub_def
        js_neg_with_sign js_add_Fin_with_sign)
next
  show "toPx (canvas (Fin 100)) PInf (Fin 0) = (PInf, Fin 280)"
    by (simp add: toPx_def center_def unit_def canvas_def js_div_def js_mul_def js_add_def
        js_sub_def js_neg_def signed_def rnd_def inf_of_def MAX_VALUE_def)
next
  show "toPx (canvas (Fin 100)) (Fin (10 ^ 307)) (Fin 0) = (PInf, Fin 280)"
    by (simp add: toPx_def center_def unit_def canvas_def js_div_def js_mul_def js_add_def
        js_sub_def js_neg_def signed_def rnd_def inf_of_def MAX_VALUE_def)
qed

theorem toPx_formula_witness:
  "toPx (canvas (Fin 100)) (Fin 2) (Fin 1) = (Fin 580, Fin 180)"
proof -
  have "in_range 760 \<and> in_range 560 \<and> in_range (2 * 100) \<and> in_range (1 * 100) \<and>
      in_range (760 / 2 + 2 * 100) \<and> in_range (560 / 2 - 1 * 100)"
    by (simp add: in_range_def MAX_VALUE_def)
  then have "toPx \<lparr>width = Fin 760, height = Fin 560, zoom = Fin 100\<rparr> (Fin 2) (Fin 1) =
      (Fin (760 / 2 + 2 * 100), Fin (560 / 2 - 1 * 100))"
    using toPx_formula [of "canvas (Fin 100)" "Fin 2" "Fin 1" 760 560 2 100 1,
        THEN conjunct2, THEN conjunct1]
    by blast
  then show ?thesis
    by (simp add: canvas_def)
qed

subsection \<open>The dashed circle\<close>

text \<open>
  Claim C8. For every magnitude and every view, the dashed circle is rendered only if
  \<open>radiusPx = zoom * |r|\<close> is finite and less than three times the larger canvas side;
  whenever that fails, no circle is rendered. On finite numbers: a circle is rendered only
  if the product \<open>zoom * |r|\<close> does not overflow and is less than three times the larger
  side.
\<close>

theorem rCircle_gate:
  "radiusPx v r = js_mul (zoom v) (Math_abs r)
   \<and> (rCircle v r \<noteq> None \<longrightarrow>
        isFinite (radiusPx v r) \<and>
        js_lt (radiusPx v r) (js_mul (Math_max (width v) (height v)) (Fin 3)))
   \<and> (\<not> (isFinite (radiusPx v r) \<and>
          js_lt (radiusPx v r) (js_mul (Math_max (width v) (height v)) (Fin 3))) \<longrightarrow>
        rCircle v r = None)
   \<and> (in_range (max w h * 3) \<and>
        rCircle \<lparr>width = Fin w, height = Fin h, zoom = Fin z\<rparr> (Fin x) \<noteq> None \<longrightarrow>
        in_range (z * \<bar>x\<bar>) \<and> z * \<bar>x\<bar> < max w h * 3)"
proof -
  have gate: "radiusPx v r = js_mul (zoom v) (Math_abs r)
   \<and> (rCircle v r \<noteq> None \<longrightarrow>
        isFinite (radiusPx v r) \<and>
        js_lt (radiusPx v r) (js_mul (Math_max (width v) (height v)) (Fin 3)))
   \<and> (\<not> (isFinite (radiusPx v r) \<and>
          js_lt (radiusPx v r) (js_mul (Math_max (width v) (height v)) (Fin 3))) \<longrightarrow>
        rCircle v r = None)"
    by (simp add: rCircle_def showRCircle_def radiusPx_def unit_def)
  have reals: "in_range (z * \<bar>x\<bar>) \<and> z * \<bar>x\<bar> < max w h * 3"
    if a: "in_range (max w h * 3) \<and>
      rCircle \<lparr>width = Fin w, height = Fin h, zoom = Fin z\<rparr> (Fin x) \<noteq> None"
  proof -
    let ?v = "\<lparr>width = Fin w, height = Fin h, zoom = Fin z\<rparr>"
    have rp: "radiusPx ?v (Fin x) = signed ((z < 0) \<noteq> (\<bar>x\<bar> < 0)) (z * \<bar>x\<bar>)"
      by (simp add: radiusPx_def unit_def Math_abs_def js_mul_Fin_signed)
    have lim: "js_mul (Math_max (width ?v) (height ?v)) (Fin 3) =
        signed (max w h < 0) (max w h * 3)"
      by (simp add: Math_max_Fin js_mul_Fin_signed)
    have "showRCircle ?v (Fin x)"
      using a by (auto simp: rCircle_def split: if_splits)
    then have fin: "isFinite (signed ((z < 0) \<noteq> (\<bar>x\<bar> < 0)) (z * \<bar>x\<bar>))"
      and lt: "js_lt (signed ((z < 0) \<noteq> (\<bar>x\<bar> < 0)) (z * \<bar>x\<bar>))
          (signed (max w h < 0) (max w h * 3))"
      unfolding showRCircle_def rp lim by blast+
    have r: "in_range (z * \<bar>x\<bar>)" using fin by (simp only: isFinite_signed)
    moreover have "z * \<bar>x\<bar> < max w h * 3"
      using lt a r by (simp add: js_lt_finite isFinite_signed val_signed)
    ultimately show ?thesis by blast
  qed
  show ?thesis
    using gate reals by blast
qed

lemma radiusPx_canvas_5: "radiusPx (canvas (Fin 100)) (Fin 5) = Fin 500"
  by (simp add: radiusPx_def unit_def canvas_def Math_abs_def js_mul_def signed_def rnd_def
      MAX_VALUE_def)

lemma radiusPx_canvas_50: "radiusPx (canvas (Fin 100)) (Fin 50) = Fin 5000"
  by (simp add: radiusPx_def unit_def canvas_def Math_abs_def js_mul_def signed_def rnd_def
      MAX_VALUE_def)

lemma canvas_limit:
  "js_mul (Math_max (width (canvas z)) (height (canvas z))) (Fin 3) = Fin 2280"
  by (simp add: canvas_def Math_max_def js_lt_def js_mul_def signed_def rnd_def MAX_VALUE_def)

theorem rCircle_gate_witness:
  "rCircle (canvas (Fin 100)) (Fin 5) = Some (Fin 380, Fin 280, Fin 500)
   \<and> isFinite (radiusPx (canvas (Fin 100)) (Fin 5))
   \<and> js_lt (radiusPx (canvas (Fin 100)) (Fin 5)) (Fin 2280)
   \<and> \<not> js_lt (radiusPx (canvas (Fin 100)) (Fin 50)) (Fin 2280)
   \<and> rCircle (canvas (Fin 100)) (Fin 50) = None"
proof -
  have shown: "rCircle (canvas (Fin 100)) (Fin 5) = Some (Fin 380, Fin 280, Fin 500)"
    by (simp add: rCircle_def showRCircle_def radiusPx_canvas_5 canvas_limit js_lt_def js_gt_def
        js_sub_def js_neg_def js_add_def rnd_def MAX_VALUE_def Math_abs_def center_def
        js_div_def signed_def)
    (simp add: canvas_def)
  have far: "\<not> js_lt (radiusPx (canvas (Fin 100)) (Fin 50)) (Fin 2280)"
    by (simp add: radiusPx_canvas_50 js_lt_def)
  show ?thesis
    using rCircle_gate [of "canvas (Fin 100)" "Fin 5", THEN conjunct2]
      rCircle_gate [of "canvas (Fin 100)" "Fin 50", THEN conjunct2] shown far
    by (simp add: canvas_limit)
qed

subsection \<open>The angle arc\<close>

text \<open>The two flags: the large arc is chosen exactly when \<open>|theta| > pi\<close>, and the sweep
  flag is \<open>0\<close> for \<open>theta \<ge> 0\<close> and \<open>1\<close> for \<open>theta < 0\<close>.\<close>

lemma arc_flags:
  "largeArc (Fin t) = (if pi < \<bar>t\<bar> then 1 else 0)"
  "sweep (Fin t) = (if 0 \<le> t then 0 else 1)"
  by (auto simp: largeArc_def sweep_def js_gt_def js_ge_def js_le_def js_lt_def js_eq_def
      Math_abs_def)

text \<open>For a magnitude whose sign bit is clear the arc is drawn over \<open>min(1, |r|)\<close>.\<close>

lemma arc_radius_nonneg:
  "\<not> sign_neg r \<Longrightarrow> Math_min (Fin 1) r = Math_min (Fin 1) (Math_abs r)"
  by (cases r) (simp_all add: Math_abs_def)

text \<open>
  Claim C2. The arc is to have the radius \<open>min(1, |r|)\<close> in world units, for every \<open>r\<close>.
  The code takes \<open>Math.min(1, r)\<close>, without the absolute value: for the mantissa \<open>-5\<close>
  and the exponent \<open>0\<close> the magnitude is \<open>-5\<close>, and at zoom \<open>100\<close> the radius in pixels is
  \<open>-500\<close>, where \<open>zoom * min(1, |r|)\<close> is \<open>100\<close>; at \<open>theta = 0\<close> the arc ends at the
  pixel \<open>(-120, 280)\<close>, the image of the world point \<open>(-5, 0)\<close>, and not at \<open>(480, 280)\<close>,
  the image of \<open>(1, 0)\<close>.
\<close>

theorem arc_negative_magnitude:
  "resolveMagnitude (Fin (- 5)) (Fin 0) = Fin (- 5)
   \<and> arcRadius (canvas (Fin 100)) (Fin (- 5)) = Fin (- 500)
   \<and> js_mul (zoom (canvas (Fin 100))) (Math_min (Fin 1) (Math_abs (Fin (- 5)))) = Fin 100
   \<and> arcEnd (canvas (Fin 100)) (Fin 0) (Fin (- 5)) = (Fin (- 120), Fin 280)
   \<and> toPx (canvas (Fin 100)) (Fin 1) (Fin 0) = (Fin 480, Fin 280)"
proof (intro conjI)
  have "clampedExp (Fin 0) = Fin 0"
    by (simp add: clampedExp_def Math_trunc_def with_sign_def trunc_real_def Math_min_def
        Math_max_def js_lt_def)
  then show "resolveMagnitude (Fin (- 5)) (Fin 0) = Fin (- 5)"
    by (simp add: resolveMagnitude_def clampedMantissa_def Math_pow10_def rnd_def js_mul_def
        signed_def MAX_VALUE_def)
  show "arcRadius (canvas (Fin 100)) (Fin (- 5)) = Fin (- 500)"
    by (simp add: arcRadius_def unit_def canvas_def Math_min_def js_lt_def js_mul_def
        signed_def rnd_def MAX_VALUE_def)
  show "js_mul (zoom (canvas (Fin 100))) (Math_min (Fin 1) (Math_abs (Fin (- 5)))) = Fin 100"
    by (simp add: canvas_def Math_abs_def Math_min_def js_lt_def js_mul_def signed_def rnd_def
        MAX_VALUE_def)
  show "arcEnd (canvas (Fin 100)) (Fin 0) (Fin (- 5)) = (Fin (- 120), Fin 280)"
    by (simp add: arcEnd_def toPx_def center_def unit_def canvas_def Math_cos_def
        Math_sin_def Math_min_def js_lt_def js_mul_def js_div_def js_add_def js_sub_def
        js_neg_def signed_def rnd_def MAX_VALUE_def)
  show "toPx (canvas (Fin 100)) (Fin 1) (Fin 0) = (Fin 480, Fin 280)"
    by (simp add: toPx_def center_def unit_def canvas_def js_mul_def js_div_def js_add_def
        js_sub_def js_neg_def signed_def rnd_def MAX_VALUE_def)
qed

subsection \<open>The step of the grid\<close>

lemma with_sign_False [simp]: "with_sign False x = Fin x"
  by (simp add: with_sign_def)

lemma js_lt_signed: "in_range c \<Longrightarrow> js_lt (signed s x) (Fin c) = (x < c)"
  using MAX_VALUE_pos by (auto simp: js_lt_def signed_def rnd_def in_range_def)

lemma Math_max_floor:
  "0 < c \<Longrightarrow> Math_max (Fin c) (with_sign s x) = Fin (max c x)"
  by (auto simp: Math_max_def js_lt_def with_sign_def)

lemma powi_floor_log_bounds:
  assumes "0 < a"
  shows "10 powi \<lfloor>log 10 a\<rfloor> \<le> a" and "a < 10 * 10 powi \<lfloor>log 10 a\<rfloor>"
proof -
  let ?k = "\<lfloor>log 10 a\<rfloor>"
  have eq: "(10::real) powr (of_int ?k) = 10 powi ?k"
    "(10::real) powr (of_int ?k + 1) = 10 powi (?k + 1)"
    using powr_real_of_int' [of 10 ?k] powr_real_of_int' [of 10 "?k + 1"] by simp_all
  have "10 powr (of_int ?k) \<le> a \<and> a < 10 powr (of_int ?k + 1)"
    using floor_log_eq_powr_iff [of a 10 ?k] assms by simp
  then show "10 powi ?k \<le> a" and "a < 10 * 10 powi ?k"
    using eq by (simp_all add: power_int_add)
qed

lemma niceStep_real:
  assumes n: "n \<noteq> 0" and r: "in_range (s / n)"
  shows "niceStep (Fin s) (Fin n) = rnd (niceStep_spec s n)"
proof -
  define raw where "raw = s / n"
  define sg where "sg = ((s < 0) \<noteq> (n < 0))"
  define tiny :: real where "tiny = 1 / 10 ^ 30"
  define a where "a = max raw tiny"
  define k where "k = \<lfloor>log 10 a\<rfloor>"
  define p :: real where "p = 10 powi k"
  have tiny: "0 < tiny" "tiny \<le> MAX_VALUE"
    by (simp_all add: tiny_def MAX_VALUE_def)
  have apos: "0 < a"
    using tiny by (simp add: a_def less_max_iff_disj)
  have ppos: "0 < p" by (simp add: p_def)
  have "raw \<le> MAX_VALUE"
    using r unfolding in_range_def raw_def by linarith
  then have "a \<le> MAX_VALUE"
    using tiny unfolding a_def by (simp only: max.bounded_iff)
  moreover have "p \<le> a"
    unfolding p_def k_def by (rule powi_floor_log_bounds(1) [OF apos])
  ultimately have prange: "in_range p"
    using ppos unfolding in_range_def by linarith
  have raw: "js_div (Fin s) (Fin n) = with_sign sg raw"
    using n r unfolding raw_def sg_def by (simp add: js_div_Fin)
  have mx: "Math_max (Fin (1 / 10 ^ 30)) (with_sign sg raw) = Fin a"
    using tiny(1) Math_max_floor [of tiny sg raw] unfolding a_def tiny_def
    by (simp only: max.commute)
  have lg: "Math_log10 (Fin a) = Fin (log 10 a)"
    using apos by (simp add: Math_log10_def)
  have pw: "Math_pow10 (Math_floor (Fin (log 10 a))) = Fin p"
  proof -
    have "(10::real) powr of_int k = p"
      unfolding p_def by (rule powr_real_of_int') simp_all
    then show ?thesis
      using prange by (simp add: Math_pow10_def Math_floor_def rnd_in_range in_range_def k_def)
  qed
  have norm: "js_div (with_sign sg raw) (Fin p) = signed sg (raw / p)"
    using ppos by (auto simp: js_div_def with_sign_def signed_def not_less)
  have lt: "js_lt (signed sg (raw / p)) (Fin c) = (raw / p < c)" if "in_range c" for c
    using that by (rule js_lt_signed)
  have bnds: "in_range (3 / 2)" "in_range (7 / 2)" "in_range (15 / 2)"
    by (simp_all add: in_range_def MAX_VALUE_def)
  have mul: "js_mul (Fin m) (Fin p) = rnd (m * p)" if "0 < m" for m
    using that ppos by (simp add: js_mul_def signed_def not_less)
  have code: "niceStep (Fin s) (Fin n) =
      rnd ((if raw / p < 3 / 2 then 1 else if raw / p < 7 / 2 then 2
            else if raw / p < 15 / 2 then 5 else 10) * p)"
    unfolding niceStep_def Let_def raw mx lg pw norm
    by (simp add: lt bnds mul)
  have spec: "niceStep_spec s n =
      (if raw / p < 3 / 2 then 1 else if raw / p < 7 / 2 then 2
       else if raw / p < 15 / 2 then 5 else 10) * p"
    unfolding niceStep_spec_def Let_def p_def k_def a_def tiny_def raw_def ..
  show ?thesis
    unfolding code spec ..
qed

lemma floor_log10_powi: "\<lfloor>log 10 (10 powi k)\<rfloor> = k"
proof -
  have "(10::real) powr of_int k = 10 powi k"
    by (rule powr_real_of_int') simp_all
  then have "log 10 (10 powi k) = of_int k"
    by (metis log_powr_cancel num.distinct(1) numeral_eq_one_iff zero_less_numeral order_less_irrefl)
  then show ?thesis by simp
qed

lemma tiny_powi: "(1::real) / 10 ^ 30 = 10 powi (- 30)"
  by (simp add: power_int_minus inverse_eq_divide)

lemma tiny_pos: "(0::real) < 1 / 10 ^ 30"
  by simp

lemma niceStep_spec_floor:
  assumes "s / n < 1 / 10 ^ 30"
  shows "niceStep_spec s n = 1 / 10 ^ 30"
proof -
  have a: "max (s / n) (1 / 10 ^ 30) = 10 powi (- 30)"
    using assms unfolding tiny_powi [symmetric] by linarith
  have p: "(10::real) powi \<lfloor>log 10 (10 powi (- 30))\<rfloor> = 1 / 10 ^ 30"
    unfolding floor_log10_powi by (simp only: tiny_powi)
  have "s / n / (1 / 10 ^ 30) < (1 / 10 ^ 30) / (1 / 10 ^ 30 :: real)"
    by (rule divide_strict_right_mono [OF assms]) simp
  then have "s / n / (1 / 10 ^ 30) < 3 / 2" by simp
  then show ?thesis
    unfolding niceStep_spec_def Let_def a p by (simp only: if_True mult_1)
qed

lemma niceStep_spec_bounds:
  assumes "1 / 10 ^ 30 \<le> s / n"
  shows "4 / 7 * (s / n) < niceStep_spec s n" and "niceStep_spec s n \<le> 10 / 7 * (s / n)"
proof -
  define raw where "raw = s / n"
  define p :: real where "p = 10 powi \<lfloor>log 10 raw\<rfloor>"
  have le: "1 / 10 ^ 30 \<le> raw" using assms unfolding raw_def .
  have rpos: "0 < raw" using le tiny_pos by linarith
  have a: "max raw (1 / 10 ^ 30) = raw"
    using le by linarith
  have ppos: "0 < p" by (simp add: p_def)
  have lo: "p \<le> raw" and hi: "raw < 10 * p"
    unfolding p_def using powi_floor_log_bounds [OF rpos] by simp_all
  have spec: "niceStep_spec s n =
      (if raw / p < 3 / 2 then 1 else if raw / p < 7 / 2 then 2
       else if raw / p < 15 / 2 then 5 else 10) * p"
    unfolding niceStep_spec_def Let_def raw_def [symmetric] a p_def ..
  have d: "(raw / p < c) = (raw < c * p)" for c
    using ppos by (simp add: pos_divide_less_eq)
  show "4 / 7 * (s / n) < niceStep_spec s n"
    unfolding spec raw_def [symmetric] d using lo hi ppos by (auto split: if_splits)
  show "niceStep_spec s n \<le> 10 / 7 * (s / n)"
    unfolding spec raw_def [symmetric] d using lo hi ppos by (auto split: if_splits)
qed

lemma niceStep_spec_pos: "0 < niceStep_spec s n"
proof (cases "s / n < 1 / 10 ^ 30")
  case True
  then show ?thesis by (simp add: niceStep_spec_floor)
next
  case False
  then have le: "1 / 10 ^ 30 \<le> s / n" by simp
  then have "0 < s / n" using tiny_pos by linarith
  then show ?thesis using niceStep_spec_bounds(1) [OF le] by linarith
qed

lemma niceStep_spec_upper: "niceStep_spec s n \<le> max (1 / 10 ^ 30) (10 / 7 * (s / n))"
proof (cases "s / n < 1 / 10 ^ 30")
  case True
  then show ?thesis by (simp add: niceStep_spec_floor)
next
  case False
  then have le: "1 / 10 ^ 30 \<le> s / n" by simp
  show ?thesis using niceStep_spec_bounds(2) [OF le] by linarith
qed

lemma floor_log10_eq:
  assumes "10 powi k \<le> x" "x < 10 powi (k + 1)"
  shows "\<lfloor>log 10 x\<rfloor> = k"
proof -
  have "(0::real) < 10 powi k" by simp
  then have pos: "0 < x" using assms(1) by linarith
  have "(10::real) powr (of_int k) = 10 powi k" "(10::real) powr (of_int k + 1) = 10 powi (k + 1)"
    using powr_real_of_int' [of 10 k] powr_real_of_int' [of 10 "k + 1"] by simp_all
  then show ?thesis
    using assms pos floor_log_eq_powr_iff [of x 10 k] by simp
qed

lemma niceStep_spec_eval:
  assumes "1 / 10 ^ 30 \<le> s / n" "10 powi k \<le> s / n" "s / n < 10 powi (k + 1)"
  shows "niceStep_spec s n =
      (if s / n / 10 powi k < 3 / 2 then 1 else if s / n / 10 powi k < 7 / 2 then 2
       else if s / n / 10 powi k < 15 / 2 then 5 else 10) * 10 powi k"
proof -
  have a: "max (s / n) (1 / 10 ^ 30) = s / n"
    using assms(1) by linarith
  show ?thesis
    unfolding niceStep_spec_def Let_def a floor_log10_eq [OF assms(2,3)] ..
qed

lemma niceStep_spec_scale:
  assumes "1 / 10 ^ 30 \<le> s / n" "1 / 10 ^ 30 \<le> s * 10 powi j / n"
  shows "niceStep_spec (s * 10 powi j) n = niceStep_spec s n * 10 powi j"
proof -
  define raw where "raw = s / n"
  define k where "k = \<lfloor>log 10 raw\<rfloor>"
  have rpos: "0 < raw" using assms(1) tiny_pos unfolding raw_def by linarith
  have b: "10 powi k \<le> raw" "raw < 10 powi (k + 1)"
    unfolding k_def using powi_floor_log_bounds [OF rpos] by (simp_all add: power_int_add)
  have jpos: "0 < (10::real) powi j" by simp
  have raw': "s * 10 powi j / n = raw * 10 powi j"
    by (simp add: raw_def)
  have b': "10 powi (k + j) \<le> s * 10 powi j / n" "s * 10 powi j / n < 10 powi (k + j + 1)"
  proof -
    have "10 powi k * 10 powi j \<le> raw * 10 powi j"
      using b(1) jpos by (simp only: mult_le_cancel_right_pos)
    then show "10 powi (k + j) \<le> s * 10 powi j / n"
      unfolding raw' by (simp add: power_int_add)
    have "raw * 10 powi j < 10 powi (k + 1) * 10 powi j"
      using b(2) jpos by (simp only: mult_less_cancel_right_pos)
    then show "s * 10 powi j / n < 10 powi (k + j + 1)"
      unfolding raw' by (simp add: power_int_add mult_ac)
  qed
  have norm: "s * 10 powi j / n / 10 powi (k + j) = s / n / 10 powi k"
    by (simp add: power_int_add)
  have e1: "niceStep_spec s n =
      (if s / n / 10 powi k < 3 / 2 then 1 else if s / n / 10 powi k < 7 / 2 then 2
       else if s / n / 10 powi k < 15 / 2 then 5 else 10) * 10 powi k"
    using niceStep_spec_eval [OF assms(1)] b unfolding raw_def by blast
  have e2: "niceStep_spec (s * 10 powi j) n =
      (if s / n / 10 powi k < 3 / 2 then 1 else if s / n / 10 powi k < 7 / 2 then 2
       else if s / n / 10 powi k < 15 / 2 then 5 else 10) * 10 powi (k + j)"
    using niceStep_spec_eval [OF assms(2) b'] unfolding norm .
  show ?thesis
    unfolding e1 e2 by (simp add: power_int_add)
qed

lemma niceStep_spec_76: "niceStep_spec 76 10 = 10"
  using niceStep_spec_eval [of 76 10 0] by simp


lemma niceStep_spec_3: "niceStep_spec 3 10 = 1 / 5"
  using niceStep_spec_eval [of 3 10 "- 1"] by (simp add: power_int_minus)

lemma niceStep_in_range:
  assumes "in_range (2 * (s / n))"
  shows "niceStep_spec s n \<le> MAX_VALUE"
proof -
  have "(1::real) / 10 ^ 30 \<le> MAX_VALUE" by (simp add: MAX_VALUE_def)
  moreover have "10 / 7 * (s / n) \<le> MAX_VALUE"
    using assms unfolding in_range_def by linarith
  ultimately show ?thesis
    using niceStep_spec_upper [of s n] by linarith
qed

lemma niceStep_Fin:
  assumes "n \<noteq> 0" "in_range (2 * (s / n))"
  shows "niceStep (Fin s) (Fin n) = Fin (niceStep_spec s n)"
proof -
  have "in_range (s / n)" using assms(2) unfolding in_range_def by linarith
  moreover have "\<bar>niceStep_spec s n\<bar> \<le> MAX_VALUE"
    using niceStep_in_range [OF assms(2)] niceStep_spec_pos [of s n] by linarith
  ultimately show ?thesis
    using assms(1) by (simp add: niceStep_real rnd_in_range)
qed

text \<open>The step of the specification is the multiplier of the normalised value times the
  power of ten, and the multiplier of a value off the thresholds is that of every value
  within \<open>10^-9\<close> of it.\<close>

lemma niceStep_spec_multiplier:
  "niceStep_spec s n =
     spec_multiplier (spec_norm s n) * 10 powi \<lfloor>log 10 (max (s / n) (1 / 10 ^ 30))\<rfloor>"
  unfolding niceStep_spec_def spec_norm_def spec_multiplier_def Let_def ..

lemma spec_multiplier_stable:
  assumes "off_thresholds x" "\<bar>y - x\<bar> < 1 / 10 ^ 9"
  shows "spec_multiplier y = spec_multiplier x"
proof -
  define d :: real where "d = 1 / 10 ^ 9"
  have "d \<le> \<bar>x - 3 / 2\<bar>" "d \<le> \<bar>x - 7 / 2\<bar>" "d \<le> \<bar>x - 15 / 2\<bar>" "\<bar>y - x\<bar> < d"
    using assms unfolding off_thresholds_def d_def by blast+
  then show ?thesis
    unfolding spec_multiplier_def by (auto simp: abs_if split: if_splits)
qed

lemma spec_norm_eval:
  assumes "1 / 10 ^ 30 \<le> s / n" "10 powi k \<le> s / n" "s / n < 10 powi (k + 1)"
  shows "spec_norm s n = s / n / 10 powi k"
proof -
  have a: "max (s / n) (1 / 10 ^ 30) = s / n"
    using assms(1) by linarith
  show ?thesis
    unfolding spec_norm_def Let_def a floor_log10_eq [OF assms(2,3)] ..
qed


lemma spec_norm_76: "spec_norm 76 10 = 38 / 5"
  using spec_norm_eval [of 76 10 0] by simp



subsection \<open>The ticks\<close>

lemma js_add_Fin: "in_range (a + b) \<Longrightarrow> js_add (Fin a) (Fin b) = Fin (a + b)"
  by (auto simp: js_add_def rnd_in_range in_range_def)

lemma js_le_Fin [simp]: "js_le (Fin a) (Fin b) = (a \<le> b)"
  by (auto simp: js_le_def js_lt_def js_eq_def)

lemma loop_rounds_step:
  assumes "0 < s" "v \<le> e + 1 / 10 ^ 12"
  shows "loop_rounds s e v = Suc (loop_rounds s e (v + s))"
proof (cases "v + s \<le> e + 1 / 10 ^ 12")
  case True
  define d where "d = e + 1 / 10 ^ 12 - (v + s)"
  have d: "0 \<le> d" using True by (simp add: d_def)
  have "(e + 1 / 10 ^ 12 - v) / s = d / s + 1"
    using assms(1) by (simp add: d_def field_simps)
  then have "\<lfloor>(e + 1 / 10 ^ 12 - v) / s\<rfloor> = \<lfloor>d / s\<rfloor> + 1"
    by simp
  moreover have "0 \<le> \<lfloor>d / s\<rfloor>"
    using d assms(1) by simp
  ultimately have "nat \<lfloor>(e + 1 / 10 ^ 12 - v) / s\<rfloor> = Suc (nat \<lfloor>d / s\<rfloor>)"
    by (simp add: nat_add_distrib)
  then show ?thesis
    using True assms(2) unfolding loop_rounds_def d_def by simp
next
  case False
  then have "(e + 1 / 10 ^ 12 - v) / s < 1"
    using assms(1) by (simp add: field_simps)
  moreover have "0 \<le> (e + 1 / 10 ^ 12 - v) / s"
    using assms by simp
  ultimately have "\<lfloor>(e + 1 / 10 ^ 12 - v) / s\<rfloor> = 0"
    by (simp add: floor_eq_iff)
  then show ?thesis
    using False assms(2) unfolding loop_rounds_def by simp
qed

lemma loop_rounds_0: "loop_rounds s e v = 0 \<longleftrightarrow> \<not> v \<le> e + 1 / 10 ^ 12"
  by (simp add: loop_rounds_def)

lemma ticks_loop_closed:
  assumes "0 < s" "in_range v" "in_range (e + 1 / 10 ^ 12)" "in_range (e + 1 / 10 ^ 12 + s)"
    and "length out \<le> MAX_ARRAY_LENGTH"
  shows "ticks_loop (Fin s) (Fin e) (Fin v) out =
     (if length out + loop_rounds s e v \<le> MAX_ARRAY_LENGTH
      then Inr (out @ map (\<lambda>i. toFixed_num 12 (Fin (v + real i * s))) [0..<loop_rounds s e v])
      else Inl RangeError)"
  using assms(2,5)
proof (induction "loop_rounds s e v" arbitrary: v out)
  case 0
  have cond: "js_le (Fin v) (js_add (Fin e) (Fin (1 / 10 ^ 12))) = (v \<le> e + 1 / 10 ^ 12)"
    by (simp only: js_add_Fin [OF assms(3)] js_le_Fin)
  have "\<not> v \<le> e + 1 / 10 ^ 12"
    using 0(1) by (simp add: loop_rounds_0)
  then have "ticks_loop (Fin s) (Fin e) (Fin v) out = Inr out"
    by (subst ticks_loop.simps) (simp only: cond if_False)
  then show ?case
    using 0(3) unfolding 0(1) [symmetric] by simp
next
  case (Suc k)
  have cond: "js_le (Fin v) (js_add (Fin e) (Fin (1 / 10 ^ 12))) = (v \<le> e + 1 / 10 ^ 12)"
    by (simp only: js_add_Fin [OF assms(3)] js_le_Fin)
  have le: "v \<le> e + 1 / 10 ^ 12"
    using Suc(2) loop_rounds_0 [of s e v] by (metis nat.distinct(1))
  have k: "k = loop_rounds s e (v + s)"
    using Suc(2) loop_rounds_step [OF assms(1) le] by simp
  have rng: "in_range (v + s)"
    using le assms(1,4) Suc(3) unfolding in_range_def by linarith
  have step: "js_add (Fin v) (Fin s) = Fin (v + s)"
    using rng by (rule js_add_Fin)
  have shift: "v + s + real i * s = v + real (Suc i) * s" for i
    by (simp add: algebra_simps)
  show ?case
  proof (cases "MAX_ARRAY_LENGTH \<le> length out")
    case True
    then have "ticks_loop (Fin s) (Fin e) (Fin v) out = Inl RangeError"
      by (subst ticks_loop.simps) (simp only: cond le if_True)
    then show ?thesis
      using True unfolding Suc(2) [symmetric] by simp
  next
    case False
    let ?out = "out @ [toFixed_num 12 (Fin v)]"
    have len: "length ?out \<le> MAX_ARRAY_LENGTH"
      using False by simp
    have "ticks_loop (Fin s) (Fin e) (Fin v) out = ticks_loop (Fin s) (Fin e) (Fin (v + s)) ?out"
      by (subst ticks_loop.simps) (simp only: cond le False if_True if_False step)
    also have "\<dots> =
       (if length ?out + k \<le> MAX_ARRAY_LENGTH
        then Inr (?out @ map (\<lambda>i. toFixed_num 12 (Fin (v + s + real i * s))) [0..<k])
        else Inl RangeError)"
      using Suc(1) [OF k rng len] unfolding k [symmetric] .
    also have "\<dots> =
       (if length out + Suc k \<le> MAX_ARRAY_LENGTH
        then Inr (out @ map (\<lambda>i. toFixed_num 12 (Fin (v + real i * s))) [0..<Suc k])
        else Inl RangeError)"
      by (simp add: map_upt_Suc shift del: upt_Suc)
    finally show ?thesis
      unfolding Suc(2) [symmetric] .
  qed
qed

lemma ticks_loop_NegZero:
  "ticks_loop (Fin s) e NegZero out = ticks_loop (Fin s) e (Fin 0) out"
proof -
  have "js_le NegZero x = js_le (Fin 0) x" for x
    by (cases x) (simp_all add: js_le_def js_lt_def js_eq_def)
  moreover have "js_add NegZero (Fin s) = js_add (Fin 0) (Fin s)"
    by (simp add: js_add_def)
  moreover have "toFixed_num 12 NegZero = toFixed_num 12 (Fin 0)"
    by (simp add: toFixed_num_def toFixed_n_def)
  ultimately show ?thesis
    by (subst (1 2) ticks_loop.simps) simp
qed

lemma ticks_start_end:
  assumes "0 < s" "0 \<le> h" "in_range (h / s)" "in_range (of_int \<lceil>h / s\<rceil> * s)"
  shows "ticks (Fin s) (Fin h) =
      ticks_loop (Fin s) (Fin (of_int \<lceil>h / s\<rceil> * s)) (Fin (- (of_int \<lceil>h / s\<rceil> * s))) []"
proof -
  define N :: real where "N = of_int \<lceil>h / s\<rceil>"
  have q: "0 \<le> h / s" using assms(1,2) by simp
  then have N0: "0 \<le> N" unfolding N_def by (simp add: order_trans [OF _ le_of_int_ceiling])
  have dv: "js_div (Fin h) (Fin s) = Fin (h / s)"
    using assms by (simp add: js_div_Fin not_less)
  have cl: "Math_ceil (Fin (h / s)) = Fin N"
    using q by (simp add: Math_ceil_def N_def not_less)
  have en: "js_mul (Fin N) (Fin s) = Fin (N * s)"
    using assms(1,4) N0 by (simp add: js_mul_Fin N_def not_less)
  have rng: "in_range (- N * s)"
    using assms(4) by (simp add: in_range_def N_def)
  have st: "ticks_loop (Fin s) e (js_mul (js_neg (Fin N)) (Fin s)) out =
      ticks_loop (Fin s) e (Fin (- (N * s))) out" for e out
  proof (cases "N = 0")
    case True
    then show ?thesis
      by (simp add: js_neg_def js_mul_def signed_def ticks_loop_NegZero)
  next
    case False
    then have "js_mul (js_neg (Fin N)) (Fin s) = Fin (- N * s)"
      using rng assms(1) N0 by (simp add: js_neg_def js_mul_Fin with_sign_def)
    then show ?thesis by simp
  qed
  have "ticks (Fin s) (Fin h) = ticks_loop (Fin s) (Fin (N * s)) (Fin (- (N * s))) []"
    unfolding ticks_def Let_def dv cl en st ..
  then show ?thesis
    unfolding N_def .
qed

lemma loop_rounds_ticks:
  assumes "0 < s"
  shows "loop_rounds s (real n * s) (- (real n * s)) = 2 * n + nat \<lfloor>(1 / 10 ^ 12) / s\<rfloor> + 1"
proof -
  have "(real n * s + 1 / 10 ^ 12 - - (real n * s)) / s = (1 / 10 ^ 12) / s + real (2 * n)"
    using assms by (simp add: field_simps)
  then have "\<lfloor>(real n * s + 1 / 10 ^ 12 - - (real n * s)) / s\<rfloor> =
      \<lfloor>(1 / 10 ^ 12) / s\<rfloor> + int (2 * n)"
    by (metis floor_add_int of_int_of_nat_eq)
  moreover have "0 \<le> \<lfloor>(1 / 10 ^ 12) / s\<rfloor>"
    using assms by simp
  moreover have "- (real n * s) \<le> real n * s + 1 / 10 ^ 12"
    using assms by (smt (verit) divide_pos_pos mult_nonneg_nonneg of_nat_0_le_iff
        zero_less_power zero_less_one)
  ultimately show ?thesis
    unfolding loop_rounds_def by (simp add: nat_add_distrib)
qed

lemma ticks_closed:
  assumes "0 < s" "0 \<le> h" "in_range (h / s)"
    and "in_range ((of_int \<lceil>h / s\<rceil> + 1) * s + 1 / 10 ^ 12)"
  shows "ticks (Fin s) (Fin h) =
     (let n = nat \<lceil>h / s\<rceil>; m = 2 * n + nat \<lfloor>(1 / 10 ^ 12) / s\<rfloor> + 1
      in if m \<le> MAX_ARRAY_LENGTH then Inr (tick_list s n m) else Inl RangeError)"
proof -
  define n where "n = nat \<lceil>h / s\<rceil>"
  have q: "0 \<le> h / s" using assms(1,2) by simp
  then have c0: "0 \<le> \<lceil>h / s\<rceil>"
    by (smt (verit) ceiling_mono ceiling_zero)
  then have N: "of_int \<lceil>h / s\<rceil> = real n"
    by (simp add: n_def)
  have big: "in_range ((real n + 1) * s + 1 / 10 ^ 12)"
    using assms(4) unfolding N .
  have pos: "0 \<le> real n * s" "(0::real) < 1 / 10 ^ 12"
    using assms(1) by simp_all
  have e: "(real n + 1) * s + 1 / 10 ^ 12 = real n * s + 1 / 10 ^ 12 + s"
    by (simp add: algebra_simps)
  have r1: "in_range (real n * s)" "in_range (- (real n * s))"
    "in_range (real n * s + 1 / 10 ^ 12)" "in_range (real n * s + 1 / 10 ^ 12 + s)"
    using big pos assms(1) unfolding in_range_def e by linarith+
  have sh: "- (real n * s) + real i * s = (real i - real n) * s" for i
    by (simp add: algebra_simps)
  have "ticks (Fin s) (Fin h) =
      ticks_loop (Fin s) (Fin (real n * s)) (Fin (- (real n * s))) []"
    using ticks_start_end [OF assms(1,2,3)] r1(1) unfolding N by simp
  also have "\<dots> =
     (if length ([]::jsnum list) + loop_rounds s (real n * s) (- (real n * s)) \<le> MAX_ARRAY_LENGTH
      then Inr ([] @ map (\<lambda>i. toFixed_num 12 (Fin (- (real n * s) + real i * s)))
              [0..<loop_rounds s (real n * s) (- (real n * s))])
      else Inl RangeError)"
    by (rule ticks_loop_closed [OF assms(1) r1(2,3,4)]) simp
  finally show ?thesis
    unfolding loop_rounds_ticks [OF assms(1)] Let_def n_def [symmetric] tick_list_def sh
    by simp
qed

lemma tick_list_length [simp]: "length (tick_list s n m) = m"
  by (simp add: tick_list_def)

paragraph \<open>Single enumerations\<close>

lemma ticks_tiny_step: "ticks (Fin (1 / 10 ^ 12)) (Fin 0) = Inr [Fin 0, Fin (1 / 10 ^ 12)]"
  by (simp add: ticks_def ticks_loop.simps js_div_def js_mul_def js_neg_def js_add_def js_le_def
      js_lt_def js_eq_def signed_def with_sign_def rnd_def MAX_VALUE_def Math_ceil_def
      toFixed_num_def toFixed_n_def MAX_ARRAY_LENGTH_def Let_def)

lemma ticks_rounded_extremes:
  "ticks (Fin (10000000000004 / 10 ^ 13)) (Fin (10000000000004 / 10 ^ 13)) =
     Inr [Fin (- 1), Fin 0, Fin 1]"
  by (simp add: ticks_def ticks_loop.simps js_div_def js_mul_def js_neg_def js_add_def js_le_def
      js_lt_def js_eq_def signed_def with_sign_def rnd_def MAX_VALUE_def Math_ceil_def
      toFixed_num_def toFixed_n_def MAX_ARRAY_LENGTH_def Let_def)

lemma ticks_too_many: "ticks (Fin 1) (Fin (10 ^ 10)) = Inl RangeError"
proof -
  have "in_range ((10::real) ^ 10 / 1)"
    "in_range ((of_int \<lceil>(10::real) ^ 10 / 1\<rceil> + 1) * 1 + 1 / 10 ^ 12)"
    by (simp_all add: in_range_def MAX_VALUE_def)
  from ticks_closed [OF _ _ this] show ?thesis
    by (simp add: MAX_ARRAY_LENGTH_def)
qed

text \<open>
  In the component: the zoom box takes any positive integer. At the zoom \<open>2 * 10^14\<close>
  the half-span is \<open>1.9 * 10^-12\<close> and the step is \<open>2 * 10^-13\<close>; the loop starts at
  \<open>-2 * 10^-12\<close> and runs up to \<open>end + 10^-12 = 3 * 10^-12\<close>, and every tick is
  rounded to a multiple of \<open>10^-12\<close>. The last of the 26 rounds is the one whose value
  is equal to the bound of the loop; with it or without it, the ticks go from
  \<open>-2 * 10^-12\<close> to \<open>3 * 10^-12\<close>.
\<close>

lemma tick_list_zoom:
  "tick_list (2 / 10 ^ 13) 10 26 =
     [Fin (- (2 / 10 ^ 12)), Fin (- (2 / 10 ^ 12)), Fin (- (2 / 10 ^ 12)),
      Fin (- (1 / 10 ^ 12)), Fin (- (1 / 10 ^ 12)), Fin (- (1 / 10 ^ 12)),
      Fin (- (1 / 10 ^ 12)), Fin (- (1 / 10 ^ 12)), NegZero, NegZero, Fin 0, Fin 0, Fin 0,
      Fin (1 / 10 ^ 12), Fin (1 / 10 ^ 12), Fin (1 / 10 ^ 12), Fin (1 / 10 ^ 12),
      Fin (1 / 10 ^ 12), Fin (2 / 10 ^ 12), Fin (2 / 10 ^ 12), Fin (2 / 10 ^ 12),
      Fin (2 / 10 ^ 12), Fin (2 / 10 ^ 12), Fin (3 / 10 ^ 12), Fin (3 / 10 ^ 12),
      Fin (3 / 10 ^ 12)]"
  by (simp add: tick_list_def upt_rec toFixed_num_def toFixed_n_def with_sign_def)

lemma xTicks_zoom_asymmetric:
  "\<exists>ys. xTicks (canvas (Fin (2 * 10 ^ 14))) = Inr ys \<and> hd ys = Fin (- (2 / 10 ^ 12)) \<and>
     last ys = Fin (3 / 10 ^ 12) \<and> \<not> symmetric_about_zero ys"
proof -
  have h: "xHalfSpan (canvas (Fin (2 * 10 ^ 14))) = Fin (19 / 10 ^ 13)"
    by (simp add: xHalfSpan_def center_def unit_def canvas_def js_div_def signed_def rnd_def
        MAX_VALUE_def)
  have "in_range (2 * (19 / 10 ^ 13 / 10))" by (simp add: in_range_def MAX_VALUE_def)
  then have "niceStep (Fin (19 / 10 ^ 13)) (Fin 10) = Fin (niceStep_spec (19 / 10 ^ 13) 10)"
    by (intro niceStep_Fin) simp_all
  moreover have "niceStep_spec (19 / 10 ^ 13) 10 = 2 / 10 ^ 13"
    using niceStep_spec_eval [of "19 / 10 ^ 13" 10 "- 13"]
    by (simp add: power_int_minus)
  ultimately have "niceStep (Fin (19 / 10 ^ 13)) (Fin 10) = Fin (2 / 10 ^ 13)"
    by (simp only:)
  then have st: "xStep (canvas (Fin (2 * 10 ^ 14))) = Fin (2 / 10 ^ 13)"
    unfolding xStep_def h .
  have "in_range ((19 / 10 ^ 13) / (2 / 10 ^ 13))"
    "in_range ((of_int \<lceil>(19 / 10 ^ 13) / (2 / 10 ^ 13 :: real)\<rceil> + 1) * (2 / 10 ^ 13)
       + 1 / 10 ^ 12)"
    by (simp_all add: in_range_def MAX_VALUE_def)
  from ticks_closed [OF _ _ this]
  have t: "xTicks (canvas (Fin (2 * 10 ^ 14))) = Inr (tick_list (2 / 10 ^ 13) 10 26)"
    unfolding xTicks_def st h by (simp add: MAX_ARRAY_LENGTH_def)
  have "\<not> symmetric_about_zero (tick_list (2 / 10 ^ 13) 10 26)"
    unfolding tick_list_zoom by (simp add: symmetric_about_zero_def js_eq_def js_neg_def)
  moreover have "hd (tick_list (2 / 10 ^ 13) 10 26) = Fin (- (2 / 10 ^ 12))"
    "last (tick_list (2 / 10 ^ 13) 10 26) = Fin (3 / 10 ^ 12)"
    unfolding tick_list_zoom by simp_all
  ultimately show ?thesis
    using t by blast
qed

text \<open>
  Claim C4. For every step \<open>> 0\<close> and every half-span \<open>\<ge> 0\<close> the ticks are to be a
  finite sequence that contains \<open>0\<close>, is symmetric about zero, and reaches the half-span
  at both ends; the code's comment reads ``build tick arrays centered at 0''. The code
  does not do so for every such input. The tolerance \<open>1e-12\<close> of the loop test and the
  12 decimals of the rounding are absolute, and the number of rounds is not bounded:
  \<^item> with the step \<open>10^-12\<close> and the half-span \<open>0\<close>, start and end are both zero, the
    test \<open>v <= end + 1e-12\<close> admits a second round, and the result \<open>[0, 10^-12]\<close> is
    not symmetric (the sums of that run are exact in doubles);
  \<^item> in the component at the zoom \<open>2 * 10^14\<close> the ticks of the horizontal axis go from
    \<open>-2 * 10^-12\<close> to \<open>3 * 10^-12\<close>, and are not symmetric;
  \<^item> with the step and the half-span both \<open>1.0000000000004\<close> the ticks are rounded to
    \<open>-1\<close>, \<open>0\<close>, \<open>1\<close>, and the extremes are below the half-span in absolute value;
  \<^item> with the step \<open>1\<close> and the half-span \<open>10^10\<close> the ticks do not fit an array, and
    no sequence is returned.
\<close>

theorem ticks_not_centered:
  "ticks (Fin (1 / 10 ^ 12)) (Fin 0) = Inr [Fin 0, Fin (1 / 10 ^ 12)]
   \<and> \<not> symmetric_about_zero [Fin 0, Fin (1 / 10 ^ 12)]
   \<and> (\<exists>ys. xTicks (canvas (Fin (2 * 10 ^ 14))) = Inr ys \<and> hd ys = Fin (- (2 / 10 ^ 12)) \<and>
         last ys = Fin (3 / 10 ^ 12) \<and> \<not> symmetric_about_zero ys)
   \<and> ticks (Fin (10000000000004 / 10 ^ 13)) (Fin (10000000000004 / 10 ^ 13)) =
       Inr [Fin (- 1), Fin 0, Fin 1]
   \<and> \<not> js_ge (Math_abs (Fin (- 1))) (Fin (10000000000004 / 10 ^ 13))
   \<and> \<not> js_ge (Math_abs (Fin 1)) (Fin (10000000000004 / 10 ^ 13))
   \<and> ticks (Fin 1) (Fin (10 ^ 10)) = Inl RangeError"
proof (intro conjI)
  show "\<not> symmetric_about_zero [Fin 0, Fin (1 / 10 ^ 12)]"
    by (simp add: symmetric_about_zero_def js_eq_def js_neg_def)
  show "\<not> js_ge (Math_abs (Fin (- 1))) (Fin (10000000000004 / 10 ^ 13))"
    "\<not> js_ge (Math_abs (Fin 1)) (Fin (10000000000004 / 10 ^ 13))"
    by (simp_all add: js_ge_def js_le_def js_lt_def js_eq_def Math_abs_def)
qed (rule ticks_tiny_step ticks_rounded_extremes ticks_too_many xTicks_zoom_asymmetric)+

lemma niceStep_zero: "niceStep (Fin 0) (Fin 10) = Fin (1 / 10 ^ 30)"
proof -
  have "in_range (2 * (0 / 10))" by (simp add: in_range_def MAX_VALUE_def)
  then have "niceStep (Fin 0) (Fin 10) = Fin (niceStep_spec 0 10)"
    by (intro niceStep_Fin) simp_all
  moreover have "niceStep_spec 0 10 = 1 / 10 ^ 30"
    by (rule niceStep_spec_floor) simp
  ultimately show ?thesis by simp
qed

lemma ticks_zero_span: "ticks (Fin (1 / 10 ^ 30)) (Fin 0) = Inl RangeError"
proof -
  have "in_range ((0::real) / (1 / 10 ^ 30))"
    "in_range ((of_int \<lceil>(0::real) / (1 / 10 ^ 30)\<rceil> + 1) * (1 / 10 ^ 30) + 1 / 10 ^ 12)"
    by (simp_all add: in_range_def MAX_VALUE_def)
  from ticks_closed [OF _ _ this] show ?thesis
    by (simp add: MAX_ARRAY_LENGTH_def)
qed

subsection \<open>The step and the ticks together\<close>

lemma niceStep_logarg_Fin:
  assumes "in_range s"
  shows "niceStep_logarg (Fin s) (Fin 10) = Fin (max (1 / 10 ^ 30) (s / 10))"
proof -
  have "in_range (s / 10)" using assms unfolding in_range_def by linarith
  then have "js_div (Fin s) (Fin 10) = with_sign (s < 0) (s / 10)"
    by (simp add: js_div_Fin)
  then show ?thesis
    unfolding niceStep_logarg_def by (simp only: Math_max_floor [OF tiny_pos])
qed

text \<open>For every finite span the argument of the logarithm is at least \<open>10^-30\<close>, and the
  step is a positive double.\<close>

lemma niceStep_positive_finite:
  assumes "in_range s"
  shows "\<exists>a st. niceStep_logarg (Fin s) (Fin 10) = Fin a \<and> 1 / 10 ^ 30 \<le> a \<and>
           niceStep (Fin s) (Fin 10) = Fin st \<and> 0 < st \<and> st \<le> MAX_VALUE"
proof -
  have r: "in_range (s / 10)" using assms unfolding in_range_def by linarith
  have "(1::real) / 10 ^ 30 \<le> MAX_VALUE" by (simp add: MAX_VALUE_def)
  moreover have "10 / 7 * (s / 10) \<le> MAX_VALUE"
    using assms MAX_VALUE_pos unfolding in_range_def by linarith
  ultimately have "niceStep_spec s 10 \<le> MAX_VALUE"
    using niceStep_spec_upper [of s 10] by linarith
  then have "niceStep (Fin s) (Fin 10) = Fin (niceStep_spec s 10)"
    using niceStep_real [OF _ r] niceStep_spec_pos [of s 10] by (simp add: rnd_in_range)
  then show ?thesis
    using niceStep_logarg_Fin [OF assms] niceStep_spec_pos [of s 10]
      \<open>niceStep_spec s 10 \<le> MAX_VALUE\<close>
    by (intro exI [of _ "max (1 / 10 ^ 30) (s / 10)"] exI [of _ "niceStep_spec s 10"]) simp
qed

lemma niceStep_NegZero: "niceStep NegZero (Fin 10) = Fin (1 / 10 ^ 30)"
proof -
  have d: "js_div NegZero (Fin c) = NegZero" if "0 < c" for c
    using that by (simp add: js_div_def signed_def)
  have m: "Math_max (Fin (1 / 10 ^ 30)) NegZero = Fin (10 powi (- 30))"
    by (simp add: Math_max_def js_lt_def power_int_minus inverse_eq_divide)
  have l: "Math_log10 (Fin (10 powi (- 30))) = Fin (log 10 (10 powi (- 30)))"
    by (simp add: Math_log10_def)
  have "(10::real) powr of_int (- 30) = 10 powi (- 30)"
    by (rule powr_real_of_int') simp_all
  then have p: "Math_pow10 (Math_floor (Fin (log 10 (10 powi (- 30))))) = Fin (1 / 10 ^ 30)"
    unfolding Math_floor_def jsnum.case floor_log10_powi Math_pow10_def
    by (simp add: rnd_def MAX_VALUE_def power_int_minus inverse_eq_divide)
  show ?thesis
    unfolding niceStep_def Let_def d [of 10, simplified] m l p
    by (simp add: d js_lt_def js_mul_def signed_def rnd_def MAX_VALUE_def)
qed

text \<open>From a span of \<open>2 * 10^-11\<close> on, the enumeration over the step of the span returns,
  with 37 ticks at most.\<close>

lemma ticks_of_niceStep_returns:
  assumes "2 / 10 ^ 11 \<le> s" "s \<le> MAX_VALUE / 4"
  shows "\<exists>ys. ticks (niceStep (Fin s) (Fin 10)) (Fin s) = Inr ys \<and> length ys \<le> 37"
proof -
  define st where "st = niceStep_spec s 10"
  define eps :: real where "eps = 1 / 10 ^ 12"
  define a :: real where "a = 2 / 10 ^ 11"
  define tiny :: real where "tiny = 1 / 10 ^ 30"
  have num: "0 < a" "tiny \<le> a / 10" "eps < 4 / 7 * (a / 10)" "0 < eps"
    "eps \<le> MAX_VALUE / 4" "(35::real) / 2 \<le> MAX_VALUE"
    by (simp_all add: eps_def a_def tiny_def MAX_VALUE_def)
  have as: "a \<le> s" using assms(1) unfolding a_def .
  have spos: "0 < s" using as num(1) by linarith
  have "tiny \<le> s / 10" using as num(2) by linarith
  then have raw: "1 / 10 ^ 30 \<le> s / 10" unfolding tiny_def .
  have lo: "4 / 7 * (s / 10) < st" and hi: "st \<le> 10 / 7 * (s / 10)"
    unfolding st_def using niceStep_spec_bounds [OF raw] by blast+
  have stpos: "0 < st" using lo spos by linarith
  have big: "eps < st" using lo as num(3) by linarith
  have "in_range (2 * (s / 10))"
    using assms(2) spos MAX_VALUE_pos unfolding in_range_def by linarith
  then have ns: "niceStep (Fin s) (Fin 10) = Fin st"
    unfolding st_def by (intro niceStep_Fin) simp_all
  have "s < 35 / 2 * st" using lo by linarith
  then have q: "s / st < 35 / 2"
    using stpos by (simp only: pos_divide_less_eq)
  have q0: "0 \<le> s / st" using spos stpos by simp
  have "s / st \<le> of_int 18" using q by linarith
  then have c18: "\<lceil>s / st\<rceil> \<le> 18" by (simp only: ceiling_le_iff)
  have "(0::real) \<le> of_int \<lceil>s / st\<rceil>"
    using q0 le_of_int_ceiling [of "s / st"] by linarith
  then have c0: "0 \<le> \<lceil>s / st\<rceil>" by simp
  define N :: real where "N = of_int \<lceil>s / st\<rceil>"
  have N: "0 \<le> N" "N \<le> 18"
    unfolding N_def using c0 c18 by simp_all
  have "(N + 1) * st \<le> 19 * st"
    using N(2) stpos by (intro mult_right_mono) simp_all
  then have "(N + 1) * st + eps \<le> MAX_VALUE"
    using hi assms(2) num(5) MAX_VALUE_pos by linarith
  moreover have "0 \<le> (N + 1) * st"
    using N(1) stpos by simp
  ultimately have r2: "in_range ((of_int \<lceil>s / st\<rceil> + 1) * st + 1 / 10 ^ 12)"
    using num(4) unfolding in_range_def N_def eps_def by linarith
  have r1: "in_range (s / st)"
    using q q0 num(6) unfolding in_range_def by linarith
  have e: "\<lfloor>(1 / 10 ^ 12) / st\<rfloor> = 0"
  proof -
    have "eps / st < 1" using big stpos by (simp only: pos_divide_less_eq mult_1)
    moreover have "0 \<le> eps / st" using stpos num(4) by simp
    ultimately show ?thesis unfolding eps_def by (simp only: floor_eq_iff) simp
  qed
  have n18: "nat \<lceil>s / st\<rceil> \<le> 18" using c18 by simp
  then have len: "2 * nat \<lceil>s / st\<rceil> + 1 \<le> MAX_ARRAY_LENGTH"
    by (simp add: MAX_ARRAY_LENGTH_def)
  have "ticks (Fin st) (Fin s) = Inr (tick_list st (nat \<lceil>s / st\<rceil>) (2 * nat \<lceil>s / st\<rceil> + 1))"
    using ticks_closed [OF stpos less_imp_le [OF spos] r1 r2] len
    unfolding Let_def e by simp
  then show ?thesis
    unfolding ns using n18 by simp
qed

text \<open>
  Claim C5, as amended. The step scales with the span as long as the floor \<open>10^-30\<close> does
  not act and the normalised value is off the thresholds: for every positive \<open>span\<close>,
  every \<open>n\<close> and every integer \<open>k\<close> such that \<open>span\<close>, \<open>n\<close> and \<open>span * 10^k\<close> are
  within the normal doubles, \<open>span / n \<ge> 10^-30\<close> and \<open>span * 10^k / n \<ge> 10^-30\<close>,
  no step overflows, and the normalised value of \<open>span / n\<close> is off the thresholds,
  the step of \<open>span * 10^k\<close> is the step of \<open>span\<close> times \<open>10^k\<close>. The two spans have the
  same normalised value, so one condition on it serves both. The values of the model are
  equal; those of the machine are the doubles next to them, equal up to rounding.
\<close>

theorem niceStep_scale:
  "0 < s \<and> normal s \<and> normal n \<and> normal (s * 10 powi j) \<and>
   1 / 10 ^ 30 \<le> s / n \<and> 1 / 10 ^ 30 \<le> s * 10 powi j / n \<and>
   in_range (2 * (s / n)) \<and> in_range (2 * (s * 10 powi j / n)) \<and>
   off_thresholds (spec_norm s n) \<longrightarrow>
   val (niceStep (Fin (s * 10 powi j)) (Fin n)) = val (niceStep (Fin s) (Fin n)) * 10 powi j
   \<and> niceStep (Fin s) (Fin n) = Fin (niceStep_spec s n)
   \<and> niceStep (Fin (s * 10 powi j)) (Fin n) = Fin (niceStep_spec s n * 10 powi j)"
proof (intro impI)
  assume a: "0 < s \<and> normal s \<and> normal n \<and> normal (s * 10 powi j) \<and>
   1 / 10 ^ 30 \<le> s / n \<and> 1 / 10 ^ 30 \<le> s * 10 powi j / n \<and>
   in_range (2 * (s / n)) \<and> in_range (2 * (s * 10 powi j / n)) \<and>
   off_thresholds (spec_norm s n)"
  define P :: real where "P = 10 powi j"
  have a1: "1 / 10 ^ 30 \<le> s / n" and a2: "1 / 10 ^ 30 \<le> s * P / n"
    and a4: "in_range (2 * (s / n))" and a5: "in_range (2 * (s * P / n))"
    using a unfolding P_def by blast+
  have rpos: "0 < s / n" using a1 tiny_pos by linarith
  then have n: "n \<noteq> 0" by auto
  have scale: "niceStep_spec (s * P) n = niceStep_spec s n * P"
    unfolding P_def using a1 a2 [unfolded P_def] by (rule niceStep_spec_scale)
  have v1: "niceStep (Fin (s * P)) (Fin n) = Fin (niceStep_spec s n * P)"
    using niceStep_Fin [OF n a5] scale by simp
  have v0: "niceStep (Fin s) (Fin n) = Fin (niceStep_spec s n)"
    by (rule niceStep_Fin [OF n a4])
  show "val (niceStep (Fin (s * 10 powi j)) (Fin n)) = val (niceStep (Fin s) (Fin n)) * 10 powi j
   \<and> niceStep (Fin s) (Fin n) = Fin (niceStep_spec s n)
   \<and> niceStep (Fin (s * 10 powi j)) (Fin n) = Fin (niceStep_spec s n * 10 powi j)"
    unfolding P_def [symmetric] v1 v0 by simp
qed

theorem niceStep_scale_witness:
  "niceStep (Fin 76) (Fin 10) = Fin 10 \<and> niceStep (Fin 76000) (Fin 10) = Fin 10000"
proof -
  have "(0::real) < 76 \<and> normal 76 \<and> normal 10 \<and> normal (76 * 10 powi 3) \<and>
      1 / 10 ^ 30 \<le> (76::real) / 10 \<and> 1 / 10 ^ 30 \<le> (76::real) * 10 powi 3 / 10 \<and>
      in_range (2 * (76 / 10)) \<and> in_range (2 * (76 * 10 powi 3 / 10)) \<and>
      off_thresholds (spec_norm 76 10)"
    by (simp add: normal_def MIN_NORMAL_def in_range_def MAX_VALUE_def spec_norm_76
        off_thresholds_def)
  from niceStep_scale [of 76 10 3, rule_format, OF this, THEN conjunct2]
  show ?thesis
    by (simp add: niceStep_spec_76)
qed

lemma niceStep_below_floor: "niceStep (Fin (3 / 10 ^ 31)) (Fin 10) = Fin (1 / 10 ^ 30)"
proof -
  have "in_range (2 * (3 / 10 ^ 31 / 10))" by (simp add: in_range_def MAX_VALUE_def)
  then have "niceStep (Fin (3 / 10 ^ 31)) (Fin 10) = Fin (niceStep_spec (3 / 10 ^ 31) 10)"
    by (intro niceStep_Fin) simp_all
  moreover have "niceStep_spec (3 / 10 ^ 31) 10 = 1 / 10 ^ 30"
    by (rule niceStep_spec_floor) simp
  ultimately show ?thesis by simp
qed

lemma niceStep_3: "niceStep (Fin 3) (Fin 10) = Fin (1 / 5)"
proof -
  have "in_range (2 * (3 / 10))" by (simp add: in_range_def MAX_VALUE_def)
  then have "niceStep (Fin 3) (Fin 10) = Fin (niceStep_spec 3 10)"
    by (intro niceStep_Fin) simp_all
  then show ?thesis by (simp only: niceStep_spec_3)
qed

text \<open>
  Claim C5 as stated fails below the floor. For the span \<open>3 * 10^-31\<close> and \<open>n = 10\<close> the
  raw value \<open>3 * 10^-32\<close> is replaced by \<open>10^-30\<close> under the logarithm, and the step is
  \<open>10^-30\<close>; times \<open>10^31\<close> this is \<open>10\<close>, but the step of the span \<open>3\<close> is \<open>0.2\<close>.
\<close>

theorem niceStep_scale_counterexample:
  "js_mul (Fin (3 / 10 ^ 31)) (Fin (10 powi 31)) = Fin 3
   \<and> niceStep (js_mul (Fin (3 / 10 ^ 31)) (Fin (10 powi 31))) (Fin 10) = Fin (1 / 5)
   \<and> niceStep (Fin (3 / 10 ^ 31)) (Fin 10) = Fin (1 / 10 ^ 30)
   \<and> js_mul (niceStep (Fin (3 / 10 ^ 31)) (Fin 10)) (Fin (10 powi 31)) = Fin 10"
proof -
  have m: "js_mul (Fin (3 / 10 ^ 31)) (Fin (10 powi 31)) = Fin 3"
    by (simp add: js_mul_def signed_def rnd_def MAX_VALUE_def)
  have "js_mul (Fin (1 / 10 ^ 30)) (Fin (10 powi 31)) = Fin 10"
    by (simp add: js_mul_def signed_def rnd_def MAX_VALUE_def)
  then show ?thesis
    by (simp only: m niceStep_3 niceStep_below_floor)
qed

text \<open>The zoom box takes any positive integer: at the zoom \<open>10^25\<close> the half-span is
  \<open>3.8 * 10^-23\<close>, the step is \<open>5 * 10^-24\<close>, and the loop runs up to \<open>end + 10^-12\<close>.\<close>

lemma xTicks_huge_zoom: "xTicks (canvas (Fin (10 ^ 25))) = Inl RangeError"
proof -
  have h: "xHalfSpan (canvas (Fin (10 ^ 25))) = Fin (380 / 10 ^ 25)"
    by (simp add: xHalfSpan_def center_def unit_def canvas_def js_div_def signed_def rnd_def
        MAX_VALUE_def)
  have "in_range (2 * (380 / 10 ^ 25 / 10))" by (simp add: in_range_def MAX_VALUE_def)
  then have "niceStep (Fin (380 / 10 ^ 25)) (Fin 10) = Fin (niceStep_spec (380 / 10 ^ 25) 10)"
    by (intro niceStep_Fin) simp_all
  moreover have "niceStep_spec (380 / 10 ^ 25) 10 = 5 / 10 ^ 24"
    using niceStep_spec_eval [of "380 / 10 ^ 25" 10 "- 24"]
    by (simp add: power_int_minus)
  ultimately have "niceStep (Fin (380 / 10 ^ 25)) (Fin 10) = Fin (5 / 10 ^ 24)"
    by (simp only:)
  then have st: "xStep (canvas (Fin (10 ^ 25))) = Fin (5 / 10 ^ 24)"
    unfolding xStep_def h .
  have "in_range ((380 / 10 ^ 25) / (5 / 10 ^ 24))"
    "in_range ((of_int \<lceil>(380 / 10 ^ 25) / (5 / 10 ^ 24 :: real)\<rceil> + 1) * (5 / 10 ^ 24)
       + 1 / 10 ^ 12)"
    by (simp_all add: in_range_def MAX_VALUE_def)
  from ticks_closed [OF _ _ this] show ?thesis
    unfolding xTicks_def st h by (simp add: MAX_ARRAY_LENGTH_def)
qed

text \<open>
  Claim C9. For every finite span the argument of the logarithm is positive and the step
  is a positive double (lemmas \<open>niceStep_positive_finite\<close> and \<open>niceStep_NegZero\<close>), and
  the enumeration of the ticks over that step is to end. It ends from the span
  \<open>2 * 10^-11\<close> on (lemma \<open>ticks_of_niceStep_returns\<close>). For the span \<open>0\<close> it does
  not: the step is the floor \<open>10^-30\<close>, the loop runs from \<open>0\<close> up to \<open>10^-12\<close> in
  steps of \<open>10^-30\<close>, and the array is full long before. The same happens in the
  component at the zoom \<open>10^25\<close>.
\<close>

theorem niceStep_zero_span_ticks:
  "niceStep_logarg (Fin 0) (Fin 10) = Fin (1 / 10 ^ 30)
   \<and> niceStep (Fin 0) (Fin 10) = Fin (1 / 10 ^ 30)
   \<and> ticks (niceStep (Fin 0) (Fin 10)) (Fin 0) = Inl RangeError
   \<and> xTicks (canvas (Fin (10 ^ 25))) = Inl RangeError"
proof -
  have "in_range 0" by (simp add: in_range_def MAX_VALUE_def)
  from niceStep_logarg_Fin [OF this]
  have "niceStep_logarg (Fin 0) (Fin 10) = Fin (1 / 10 ^ 30)" by simp
  then show ?thesis
    by (simp only: niceStep_zero ticks_zero_span xTicks_huge_zoom)
qed

subsection \<open>Formatting\<close>

lemma digit_char_is_digit: "d < 10 \<Longrightarrow> is_digit (digit_char d)"
proof -
  assume "d < 10"
  then have "d \<in> {0, 1, 2, 3, 4, 5, 6, 7, 8, 9}" by auto
  then show ?thesis
    by (auto simp: is_digit_def digit_char_def)
qed

lemma is_digit_not_point: "is_digit c \<Longrightarrow> c \<noteq> CHR ''.''"
  by (auto simp: is_digit_def)

lemma decimal_digits: "list_all is_digit (decimal n) \<and> decimal n \<noteq> []"
proof (induction n rule: decimal.induct)
  case (1 n)
  show ?case
  proof (cases "n < 10")
    case True
    then show ?thesis
      by (subst (1 2) decimal.simps) (simp add: digit_char_is_digit)
  next
    case False
    then show ?thesis
      using 1 by (subst (1 2) decimal.simps) (simp add: digit_char_is_digit)
  qed
qed

lemma no_point_replace_dot_zeros: "CHR ''.'' \<notin> set b \<Longrightarrow> replace_dot_zeros b = b"
  by (induction b) auto

lemma no_point_replace_trailing_zeros: "CHR ''.'' \<notin> set b \<Longrightarrow> replace_trailing_zeros b = b"
  by (induction b) auto

lemma digits_no_point: "list_all is_digit b \<Longrightarrow> CHR ''.'' \<notin> set b"
  by (auto simp: list_all_iff dest: is_digit_not_point)

lemma replace_dot_zeros_point:
  "CHR ''.'' \<notin> set p \<Longrightarrow> list_all is_digit b \<Longrightarrow>
   replace_dot_zeros (p @ CHR ''.'' # b) =
     (if b \<noteq> [] \<and> list_all (\<lambda>d. d = CHR ''0'') b then p else p @ CHR ''.'' # b)"
  by (induction p) (auto simp: no_point_replace_dot_zeros digits_no_point)

lemma replace_trailing_zeros_point:
  "CHR ''.'' \<notin> set p \<Longrightarrow> list_all is_digit b \<Longrightarrow>
   replace_trailing_zeros (p @ CHR ''.'' # b) =
     (if b \<noteq> [] \<and> last b = CHR ''0'' then p @ CHR ''.'' # drop_zeros_end b
      else p @ CHR ''.'' # b)"
  by (induction p) (auto simp: no_point_replace_trailing_zeros digits_no_point)

lemma drop_zeros_end_point:
  "drop_zeros_end (p @ CHR ''.'' # b) = p @ CHR ''.'' # drop_zeros_end b"
  by (simp add: drop_zeros_end_def dropWhile_append)

lemma drop_zeros_end_all: "list_all (\<lambda>d. d = CHR ''0'') b \<Longrightarrow> drop_zeros_end b = []"
  by (simp add: drop_zeros_end_def list_all_iff)

lemma drop_zeros_end_last:
  "b \<noteq> [] \<Longrightarrow> last b \<noteq> CHR ''0'' \<Longrightarrow> drop_zeros_end b = b"
  by (cases b rule: rev_cases) (simp_all add: drop_zeros_end_def)

lemma drop_zeros_end_some:
  assumes "\<not> list_all (\<lambda>d. d = CHR ''0'') b"
  shows "drop_zeros_end b \<noteq> []" and "last (drop_zeros_end b) \<in> set b"
proof -
  let ?r = "dropWhile (\<lambda>d. d = CHR ''0'') (rev b)"
  have ne: "?r \<noteq> []"
    using assms by (auto simp: list_all_iff)
  then show "drop_zeros_end b \<noteq> []" by (simp add: drop_zeros_end_def)
  have "last (drop_zeros_end b) = hd ?r"
    using ne by (simp add: drop_zeros_end_def last_rev)
  moreover have "hd ?r \<in> set ?r" using ne by simp
  ultimately show "last (drop_zeros_end b) \<in> set b"
    using set_dropWhileD [of "hd ?r" "\<lambda>d. d = CHR ''0''" "rev b"] by simp
qed

lemma replacements_strip:
  assumes p: "CHR ''.'' \<notin> set p" and b: "b \<noteq> []" "list_all is_digit b"
  shows "replace_trailing_zeros (replace_dot_zeros (p @ CHR ''.'' # b)) =
      strip_fraction (p @ CHR ''.'' # b)"
proof (cases "list_all (\<lambda>d. d = CHR ''0'') b")
  case True
  then show ?thesis
    using p b
    by (simp add: replace_dot_zeros_point no_point_replace_trailing_zeros strip_fraction_def
        drop_zeros_end_point drop_zeros_end_all)
next
  case False
  note some = drop_zeros_end_some [OF False]
  have "is_digit (last (drop_zeros_end b))"
    using some(2) b(2) by (simp add: list_all_iff)
  then have np: "last (drop_zeros_end b) \<noteq> CHR ''.''"
    by (rule is_digit_not_point)
  have spec: "strip_fraction (p @ CHR ''.'' # b) = p @ CHR ''.'' # drop_zeros_end b"
    using some(1) np by (simp add: strip_fraction_def drop_zeros_end_point)
  show ?thesis
    using False p b
    by (auto simp: replace_dot_zeros_point replace_trailing_zeros_point spec drop_zeros_end_last)
qed

lemma toFixed_shape:
  assumes "f \<noteq> 0"
  shows "\<exists>p b. toFixed f x = p @ CHR ''.'' # b \<and> CHR ''.'' \<notin> set p \<and> b \<noteq> [] \<and>
           list_all is_digit b"
proof -
  define m where "m = decimal (nat (toFixed_n f \<bar>x\<bar>))"
  define m2 where "m2 = (if length m \<le> f then replicate (f + 1 - length m) CHR ''0'' @ m else m)"
  define s where "s = (if x < 0 then ''-'' else [])"
  have dm: "list_all is_digit m" "m \<noteq> []"
    unfolding m_def using decimal_digits by simp_all
  have z: "is_digit CHR ''0''" by (simp add: is_digit_def)
  have dm2: "list_all is_digit m2"
    using dm(1) z by (simp add: m2_def list_all_iff)
  have len: "f < length m2"
    by (auto simp: m2_def)
  have eq: "toFixed f x = (s @ take (length m2 - f) m2) @ CHR ''.'' # drop (length m2 - f) m2"
    using assms by (simp add: toFixed_def Let_def m_def m2_def s_def)
  have "list_all is_digit (take (length m2 - f) m2)" "list_all is_digit (drop (length m2 - f) m2)"
    using dm2 by (auto simp: list_all_iff dest: in_set_takeD in_set_dropD)
  moreover have "CHR ''.'' \<notin> set s" by (simp add: s_def)
  moreover have "drop (length m2 - f) m2 \<noteq> []"
    using len assms by simp
  ultimately show ?thesis
    using eq digits_no_point by (intro exI [of _ "s @ take (length m2 - f) m2"]
        exI [of _ "drop (length m2 - f) m2"]) auto
qed

lemma fmt_fixed:
  assumes "1 / 10 ^ 3 \<le> \<bar>x\<bar>" "\<bar>x\<bar> < 10 ^ 6"
  shows "fmt (Fin x) = strip_fraction (toFixed 3 x)"
proof -
  obtain p b where s: "toFixed 3 x = p @ CHR ''.'' # b" "CHR ''.'' \<notin> set p" "b \<noteq> []"
      "list_all is_digit b"
    using toFixed_shape [of 3 x] by auto
  have "x \<noteq> 0" using assms(1) by auto
  then have "fmt (Fin x) = replace_trailing_zeros (replace_dot_zeros (toFixed 3 x))"
    using assms
    by (simp add: fmt_def Math_abs_def js_eq_def js_ge_def js_le_def js_lt_def not_less not_le)
  then show ?thesis
    unfolding s(1) using replacements_strip [OF s(2,3,4)] by simp
qed

lemma toExponential_1500000: "toExponential 2 1500000 = ''1.50e+6''"
proof -
  have e0: "\<lfloor>log 10 \<bar>1500000::real\<bar>\<rfloor> = 6"
    by (rule floor_log10_eq) (simp_all add: power_int_def)
  have n0: "\<lfloor>\<bar>1500000::real\<bar> / 10 powi (6 - int 2) + 1 / 2\<rfloor> = 150"
    by (simp add: power_int_def)
  have d: "decimal 150 = ''150''" "decimal 6 = ''6''"
    by (simp_all add: decimal.simps digit_char_def)
  show ?thesis
    unfolding toExponential_def Let_def e0 n0 by (simp add: d)
qed

lemma toFixed_quarter: "toFixed 3 (1 / 4) = ''0.250''"
  by (simp add: toFixed_def toFixed_n_def decimal.simps digit_char_def Let_def)

lemma toFixed_5_2: "toFixed 3 (- 5 / 2) = ''-2.500''"
  by (simp add: toFixed_def toFixed_n_def decimal.simps digit_char_def Let_def)

lemma strip_examples:
  "strip_fraction ''0.250'' = ''0.25''" "strip_fraction ''-2.500'' = ''-2.5''"
  by (simp_all add: strip_fraction_def drop_zeros_end_def)

text \<open>
  Claim C7. For every number \<open>v\<close>, \<open>fmt v\<close> is the infinity symbol when \<open>v\<close> is not
  finite; \<open>"0"\<close> when \<open>v\<close> is zero; the scientific notation of \<open>v\<close> with two fractional
  digits when \<open>|v| \<ge> 10^6\<close> or \<open>0 < |v| < 10^-3\<close>; and otherwise the fixed-point
  rendering with three decimals, without the zeros at its end and without the point if
  it comes last then. In particular \<open>fmt 0 = "0"\<close> and \<open>fmt 0.25 = "0.25"\<close>.
\<close>

theorem fmt_cases:
  "(\<not> isFinite v \<longrightarrow> fmt v = infinity_symbol)
   \<and> (is_zero v \<longrightarrow> fmt v = ''0'')
   \<and> (x \<noteq> 0 \<and> (10 ^ 6 \<le> \<bar>x\<bar> \<or> \<bar>x\<bar> < 1 / 10 ^ 3) \<longrightarrow> fmt (Fin x) = toExponential 2 x)
   \<and> (1 / 10 ^ 3 \<le> \<bar>x\<bar> \<and> \<bar>x\<bar> < 10 ^ 6 \<longrightarrow> fmt (Fin x) = strip_fraction (toFixed 3 x))
   \<and> fmt (Fin 0) = ''0''
   \<and> fmt (Fin (1 / 4)) = ''0.25''"
proof (intro conjI impI)
  show "fmt v = infinity_symbol" if "\<not> isFinite v"
    using that by (simp add: fmt_def)
  show "fmt v = ''0''" if "is_zero v"
    using that by (cases v) (simp_all add: fmt_def Math_abs_def js_eq_def)
  show "fmt (Fin x) = toExponential 2 x" if "x \<noteq> 0 \<and> (10 ^ 6 \<le> \<bar>x\<bar> \<or> \<bar>x\<bar> < 1 / 10 ^ 3)"
    using that
    by (auto simp: fmt_def Math_abs_def js_eq_def js_ge_def js_le_def js_lt_def)
  show "fmt (Fin x) = strip_fraction (toFixed 3 x)" if "1 / 10 ^ 3 \<le> \<bar>x\<bar> \<and> \<bar>x\<bar> < 10 ^ 6"
    using that by (intro fmt_fixed) simp_all
  show "fmt (Fin 0) = ''0''"
    by (simp add: fmt_def Math_abs_def js_eq_def)
  have "fmt (Fin (1 / 4)) = strip_fraction (toFixed 3 (1 / 4))"
    by (rule fmt_fixed) simp_all
  then show "fmt (Fin (1 / 4)) = ''0.25''"
    by (simp only: toFixed_quarter strip_examples)
qed

theorem fmt_cases_witness:
  "fmt PInf = infinity_symbol
   \<and> fmt (Fin 0) = ''0''
   \<and> fmt (Fin 1500000) = ''1.50e+6''
   \<and> fmt (Fin (- 5 / 2)) = ''-2.5''"
proof -
  have c: "(1500000::real) \<noteq> 0 \<and> (10 ^ 6 \<le> \<bar>1500000::real\<bar> \<or> \<bar>1500000::real\<bar> < 1 / 10 ^ 3)"
    "1 / 10 ^ 3 \<le> \<bar>- 5 / 2 :: real\<bar> \<and> \<bar>- 5 / 2 :: real\<bar> < 10 ^ 6"
    by simp_all
  have "fmt PInf = infinity_symbol" "fmt (Fin 0) = ''0''"
    using fmt_cases [of PInf 1] fmt_cases [of "Fin 0" 1] by simp_all
  moreover have "fmt (Fin 1500000) = toExponential 2 1500000"
    using fmt_cases [of NaN 1500000] c(1) by blast
  moreover have "fmt (Fin (- 5 / 2)) = strip_fraction (toFixed 3 (- 5 / 2))"
    using fmt_cases [of NaN "- 5 / 2"] c(2) by blast
  ultimately show ?thesis
    by (simp only: toExponential_1500000 toFixed_5_2 strip_examples)
qed

text \<open>
  Claim C10. \<open>fmt (-0)\<close> is \<open>"0"\<close>, as for the positive zero: the test
  \<open>Math.abs(v) === 0\<close> comes before the choice of a notation, and it holds for \<open>-0\<close>.
\<close>

theorem fmt_negative_zero:
  "fmt NegZero = ''0'' \<and> fmt NegZero = fmt (Fin 0) \<and> js_eq (Math_abs NegZero) (Fin 0)"
  by (simp add: fmt_def Math_abs_def js_eq_def)

end
